theory Spec2Isabelle
  imports Main "HOL-Library.Word"
begin

section \<open>Data of \<open>switch.py\<close>\<close>

text \<open>
  The recorder talks to three things outside itself: the S3 client, the ffmpeg child
  process and the Home Assistant state machine. Every call to one of them is an
  \<open>event\<close>; a run of the code is the list of events it performs, in program order,
  each event carrying the answer the outside world gave. Logging calls are not events.
\<close>

type_synonym bytes = "8 word list"
type_synonym upload_id = string
type_synonym etag = string
type_synonym pid = nat

text \<open>The exception classes the handlers of \<open>switch.py\<close> distinguish; any other class
  is \<open>OtherException\<close>. \<open>UnboundLocalError\<close> is what Python raises when the name
  \<open>process\<close> is read before it was ever assigned.\<close>

datatype exn =
    ClientError
  | BotoCoreError
  | OSError
  | ValueError
  | SubprocessError
  | RuntimeError
  | CancelledError
  | UnboundLocalError
  | OtherException

text \<open>The answer to a call: \<open>Inl\<close> the exception it raises, \<open>Inr\<close> its value.\<close>

type_synonym 'a reply = "exn + 'a"

datatype event =
    CreateMultipartUpload string string "upload_id reply"
  | Popen "string list" "pid reply"
  | StdoutRead nat "bytes reply"
  | UploadPart string string nat upload_id bytes "etag reply"
  | CompleteMultipartUpload string string upload_id "(nat \<times> etag) list" "unit reply"
  | AbortMultipartUpload string string upload_id "unit reply"
  | PopenExit pid
  | Terminate pid
  | Wait pid
  | ScheduleUpdate bool
  | AwaitCancelled

text \<open>
  The arguments are those of the source: \<open>CreateMultipartUpload Bucket Key\<close>,
  \<open>UploadPart Bucket Key PartNumber UploadId Body\<close>,
  \<open>CompleteMultipartUpload Bucket Key UploadId Parts\<close>,
  \<open>AbortMultipartUpload Bucket Key UploadId\<close>, \<open>StdoutRead n\<close> for
  \<open>process.stdout.read(n)\<close>. \<open>PopenExit\<close> is the exit of the \<open>with subprocess.Popen\<close>
  block (it closes the pipes and waits for the child), \<open>Terminate\<close> and \<open>Wait\<close> are
  \<open>process.terminate()\<close> and \<open>process.wait()\<close>, and \<open>ScheduleUpdate b\<close> is
  \<open>schedule_update_ha_state()\<close> publishing the value \<open>b\<close> of \<open>_attr_is_on\<close>.
  \<open>AwaitCancelled\<close> is the \<open>await\<close> of line 166 ending with \<open>asyncio.CancelledError\<close>,
  because the task that runs \<open>start_stream_to_s3\<close> is cancelled while the recording job
  runs in its executor thread. A job that has begun cannot be cancelled: it goes on.
\<close>

text \<open>The fields of \<open>SwitchRecordCameraEntity\<close> that the recording code reads.
  \<open>ffmpeg_command\<close> is the string \<open>__init__\<close> builds from the url and from
  \<open>STREAM_LENGTH\<close> of \<open>const.py\<close>; \<open>is_on\<close> is \<open>_attr_is_on\<close>. The credentials and the
  region only go into the client object.\<close>

record entity =
  stream_name :: string
  stream_url :: string
  bucket_name :: string
  ffmpeg_command :: string
  is_on :: bool

text \<open>The locals of one segment: the \<open>BytesIO\<close> buffer (its position is always its
  length when the code calls \<open>tell\<close>), the list \<open>parts\<close> and \<open>part_number\<close>.\<close>

record segment_locals =
  buffer :: bytes
  parts :: "(nat \<times> etag) list"
  part_number :: nat

text \<open>
  What the world does during the read loop of one segment, in order: either
  \<open>process.stdout.read\<close> is answered, or \<open>async_turn_off\<close> runs on the event loop
  (an external stop) before the loop tests its guard again, or the task that awaits the
  job is cancelled before the loop tests its guard again (\<open>ExternalCancel\<close>): then
  \<open>CancelledError\<close> is raised at the \<open>await\<close> of \<open>start_stream_to_s3\<close>, whose lines 175-178
  run on the event loop and call \<open>stop_stream_to_s3\<close>. When the script is used up
  the child's output has ended: the next read returns \<open>b''\<close>.
\<close>

datatype read_step = ExternalStop | ExternalCancel | ReadReply "bytes reply"

record segment_env =
  now_strftime :: string
  create_reply :: "upload_id reply"
  popen_reply :: "pid reply"
  stdout_script :: "read_step list"
  upload_part_reply :: "nat \<Rightarrow> etag reply"
  complete_reply :: "unit reply"
  abort_reply :: "unit reply"

text \<open>The world during a whole recording job: segments, and external stops and
  cancellations of the awaiting task that arrive between two segments. A later call of
  \<open>start_stream_to_s3\<close> that sets the flag again while this job still runs is not among
  the steps: the flag of a job only goes from on to off.\<close>

datatype session_step = StopRequested | CancelRequested | Segment segment_env

text \<open>How a call ends. \<open>Running\<close>: the script of the world ended while the loop was
  still going, so the call has not returned.\<close>

datatype outcome = Returned | Raised exn | Running

section \<open>The code of \<open>switch.py\<close>\<close>

definition chunk_threshold :: nat where
  "chunk_threshold = 5 * 1024 * 1024"

definition read_size :: nat where
  "read_size = 1024 * 1024"

text \<open>\<open>str.split(" ")\<close>: every single blank separates, empty words are kept.\<close>

fun split_blank :: "string \<Rightarrow> string list" where
  "split_blank [] = [[]]"
| "split_blank (c # cs) =
     (if c = CHR '' '' then [] # split_blank cs
      else (case split_blank cs of
              [] \<Rightarrow> [[c]]
            | w # ws \<Rightarrow> (c # w) # ws))"

text \<open>\<open>stop_stream_to_s3\<close> (lines 180-187).\<close>

definition stop_stream_to_s3 :: "entity \<Rightarrow> event list \<times> entity" where
  "stop_stream_to_s3 e =
     (if is_on e then ([ScheduleUpdate False], e\<lparr>is_on := False\<rparr>)
      else ([], e))"

text \<open>
  One pass of the read loop's body (lines 99-121) for the answer \<open>reply\<close> of the read,
  with the threshold \<open>T\<close> and the read size \<open>R\<close> as parameters; the source fixes them
  to \<open>chunk_threshold\<close> and \<open>read_size\<close>. The pass ends by \<open>break\<close>, by an exception,
  or goes on to the next test of the guard.
\<close>

datatype pass_end = Break | Raise exn | Continue

definition read_pass ::
  "nat \<Rightarrow> nat \<Rightarrow> segment_env \<Rightarrow> string \<Rightarrow> upload_id \<Rightarrow> entity \<Rightarrow> segment_locals
     \<Rightarrow> bytes reply \<Rightarrow> pass_end \<times> event list \<times> segment_locals" where
  "read_pass T R env key uid e ls reply =
     (case reply of
        Inl x \<Rightarrow> (Raise x, [StdoutRead R (Inl x)], ls)
      | Inr chunk \<Rightarrow>
          if chunk = [] then (Break, [StdoutRead R (Inr chunk)], ls)
          else
            (let buf = buffer ls @ chunk in
             if length buf > T then
               (let ack = upload_part_reply env (part_number ls);
                    call = UploadPart (bucket_name e) key (part_number ls) uid buf ack
                in case ack of
                     Inl x \<Rightarrow>
                       (Raise x, [StdoutRead R (Inr chunk), call], ls\<lparr>buffer := buf\<rparr>)
                   | Inr tag \<Rightarrow>
                       (Continue, [StdoutRead R (Inr chunk), call],
                        ls\<lparr>buffer := [],
                           parts := parts ls @ [(part_number ls, tag)],
                           part_number := part_number ls + 1\<rparr>))
             else (Continue, [StdoutRead R (Inr chunk)], ls\<lparr>buffer := buf\<rparr>)))"

text \<open>
  The read loop \<open>while self._attr_is_on\<close> (lines 98-121). The result is the exception
  that left the loop (if any), the events, the entity and the locals.
\<close>

fun read_loop ::
  "nat \<Rightarrow> nat \<Rightarrow> segment_env \<Rightarrow> string \<Rightarrow> upload_id \<Rightarrow> read_step list \<Rightarrow> entity
     \<Rightarrow> segment_locals \<Rightarrow> exn option \<times> event list \<times> entity \<times> segment_locals" where
  "read_loop T R env key uid [] e ls =
     (if \<not> is_on e then (None, [], e, ls)
      else (None, [StdoutRead R (Inr [])], e, ls))"
| "read_loop T R env key uid (ExternalStop # steps) e ls =
     (if \<not> is_on e then (None, [], e, ls)
      else (case read_loop T R env key uid steps (snd (stop_stream_to_s3 e)) ls of
              (r, evs, e', ls') \<Rightarrow> (r, fst (stop_stream_to_s3 e) @ evs, e', ls')))"
| "read_loop T R env key uid (ExternalCancel # steps) e ls =
     (if \<not> is_on e then (None, [], e, ls)
      else (case read_loop T R env key uid steps (snd (stop_stream_to_s3 e)) ls of
              (r, evs, e', ls') \<Rightarrow>
                (r, AwaitCancelled # fst (stop_stream_to_s3 e) @ evs, e', ls')))"
| "read_loop T R env key uid (ReadReply reply # steps) e ls =
     (if \<not> is_on e then (None, [], e, ls)
      else (case read_pass T R env key uid e ls reply of
              (Break, evs0, ls0) \<Rightarrow> (None, evs0, e, ls0)
            | (Raise x, evs0, ls0) \<Rightarrow> (Some x, evs0, e, ls0)
            | (Continue, evs0, ls0) \<Rightarrow>
                (case read_loop T R env key uid steps e ls0 of
                   (r, evs, e', ls') \<Rightarrow> (r, evs0 @ evs, e', ls'))))"

text \<open>The flush of the remainder after the loop (lines 123-137).\<close>

definition final_flush ::
  "segment_env \<Rightarrow> string \<Rightarrow> upload_id \<Rightarrow> entity \<Rightarrow> segment_locals
     \<Rightarrow> exn option \<times> event list \<times> segment_locals" where
  "final_flush env key uid e ls =
     (if length (buffer ls) > 0 then
        (let reply = upload_part_reply env (part_number ls);
             call = UploadPart (bucket_name e) key (part_number ls) uid (buffer ls) reply
         in case reply of
              Inl x \<Rightarrow> (Some x, [call], ls)
            | Inr tag \<Rightarrow> (None, [call], ls\<lparr>parts := parts ls @ [(part_number ls, tag)]\<rparr>))
      else (None, [], ls))"

text \<open>The body of the \<open>with subprocess.Popen\<close> block (lines 95-145): read loop, flush,
  \<open>complete_multipart_upload\<close>.\<close>

definition capture_and_upload ::
  "nat \<Rightarrow> nat \<Rightarrow> segment_env \<Rightarrow> string \<Rightarrow> upload_id \<Rightarrow> entity
     \<Rightarrow> exn option \<times> event list \<times> entity" where
  "capture_and_upload T R env key uid e =
     (case read_loop T R env key uid (stdout_script env) e
             \<lparr>buffer = [], parts = [], part_number = 1\<rparr> of
        (Some x, evs1, e1, ls1) \<Rightarrow> (Some x, evs1, e1)
      | (None, evs1, e1, ls1) \<Rightarrow>
          (case final_flush env key uid e1 ls1 of
             (Some x, evs2, ls2) \<Rightarrow> (Some x, evs1 @ evs2, e1)
           | (None, evs2, ls2) \<Rightarrow>
               (let reply = complete_reply env;
                    call = CompleteMultipartUpload (bucket_name e1) key uid (parts ls2) reply
                in case reply of
                     Inl x \<Rightarrow> (Some x, evs1 @ evs2 @ [call], e1)
                   | Inr u \<Rightarrow> (None, evs1 @ evs2 @ [call], e1))))"

text \<open>
  The \<open>try\<close> block (lines 88-145). \<open>proc\<close> is the local name \<open>process\<close>: \<open>None\<close> while
  it is unbound; it is bound only when \<open>Popen\<close> has returned. Leaving the \<open>with\<close> block,
  normally or by an exception, runs \<open>Popen.__exit__\<close>.
\<close>

definition try_block ::
  "nat \<Rightarrow> nat \<Rightarrow> segment_env \<Rightarrow> string \<Rightarrow> upload_id \<Rightarrow> entity \<Rightarrow> pid option
     \<Rightarrow> exn option \<times> event list \<times> entity \<times> pid option" where
  "try_block T R env key uid e proc =
     (let argv = split_blank (ffmpeg_command e) in
      case popen_reply env of
        Inl x \<Rightarrow> (Some x, [Popen argv (Inl x)], e, proc)
      | Inr p \<Rightarrow>
          (case capture_and_upload T R env key uid e of
             (r, evs, e') \<Rightarrow> (r, Popen argv (Inr p) # evs @ [PopenExit p], e', Some p)))"

text \<open>The \<open>except\<close> clauses (lines 147-154), for the exception \<open>r\<close> the \<open>try\<close> block
  ended with.\<close>

definition except_clauses ::
  "segment_env \<Rightarrow> string \<Rightarrow> upload_id \<Rightarrow> entity \<Rightarrow> exn option
     \<Rightarrow> exn option \<times> event list \<times> entity" where
  "except_clauses env key uid e r =
     (case r of
        None \<Rightarrow> (None, [], e)
      | Some x \<Rightarrow>
          if x = ClientError \<or> x = BotoCoreError then
            (let reply = abort_reply env;
                 call = AbortMultipartUpload (bucket_name e) key uid reply
             in case reply of
                  Inl y \<Rightarrow> (Some y, [call], e)
                | Inr u \<Rightarrow> (None, [call], e))
          else if x = OSError \<or> x = ValueError \<or> x = SubprocessError then
            (case stop_stream_to_s3 e of (evs, e') \<Rightarrow> (None, evs, e'))
          else (Some x, [], e))"

text \<open>The \<open>finally\<close> clause (lines 155-158): an exception raised here replaces the
  pending one.\<close>

definition finally_clause :: "pid option \<Rightarrow> exn option \<Rightarrow> exn option \<times> event list" where
  "finally_clause proc r =
     (case proc of
        None \<Rightarrow> (Some UnboundLocalError, [])
      | Some p \<Rightarrow> (r, [Terminate p, Wait p]))"

text \<open>One pass of the outer loop's body (lines 74-158).\<close>

definition segment ::
  "nat \<Rightarrow> nat \<Rightarrow> segment_env \<Rightarrow> entity \<Rightarrow> pid option
     \<Rightarrow> exn option \<times> event list \<times> entity \<times> pid option" where
  "segment T R env e proc =
     (let output_key = now_strftime env @ stream_name e @ ''.mp4'';
          reply = create_reply env;
          call = CreateMultipartUpload (bucket_name e) output_key reply
      in case reply of
           Inl x \<Rightarrow> (Some x, [call], e, proc)
         | Inr upload_id \<Rightarrow>
             (case try_block T R env output_key upload_id e proc of
                (r1, evs1, e1, proc1) \<Rightarrow>
                  (case except_clauses env output_key upload_id e1 r1 of
                     (r2, evs2, e2) \<Rightarrow>
                       (case finally_clause proc1 r2 of
                          (r3, evs3) \<Rightarrow> (r3, call # evs1 @ evs2 @ evs3, e2, proc1)))))"

text \<open>The outer loop \<open>while self._attr_is_on\<close> (line 73).\<close>

fun upload_loop ::
  "nat \<Rightarrow> nat \<Rightarrow> session_step list \<Rightarrow> entity \<Rightarrow> pid option
     \<Rightarrow> outcome \<times> event list \<times> entity" where
  "upload_loop T R [] e proc = (if is_on e then Running else Returned, [], e)"
| "upload_loop T R (StopRequested # ws) e proc =
     (case stop_stream_to_s3 e of (evs0, e0) \<Rightarrow>
        (case upload_loop T R ws e0 proc of (out, evs, e') \<Rightarrow> (out, evs0 @ evs, e')))"
| "upload_loop T R (CancelRequested # ws) e proc =
     (if \<not> is_on e then (Returned, [], e)
      else (case stop_stream_to_s3 e of (evs0, e0) \<Rightarrow>
              (case upload_loop T R ws e0 proc of
                 (out, evs, e') \<Rightarrow> (out, AwaitCancelled # evs0 @ evs, e'))))"
| "upload_loop T R (Segment env # ws) e proc =
     (if \<not> is_on e then (Returned, [], e)
      else (case segment T R env e proc of
              (Some x, evs, e1, proc1) \<Rightarrow> (Raised x, evs, e1)
            | (None, evs, e1, proc1) \<Rightarrow>
                (case upload_loop T R ws e1 proc1 of
                   (out, evs', e') \<Rightarrow> (out, evs @ evs', e'))))"

text \<open>\<open>upload_to_s3_sync\<close> (lines 65-158). The client object is built with the
  arguments with which \<open>validate_bucket_sync\<close> has built one when the entry was made;
  this calls nothing outside and is left out. The name \<open>process\<close> is unbound when the
  loop starts.\<close>

definition upload_to_s3_sync :: "session_step list \<Rightarrow> entity \<Rightarrow> outcome \<times> event list \<times> entity" where
  "upload_to_s3_sync world e = upload_loop chunk_threshold read_size world e None"

text \<open>
  \<open>start_stream_to_s3\<close> (lines 160-178). The coroutine sets the flag, publishes it, hands
  \<open>upload_to_s3_sync\<close> to the executor and awaits it. The \<open>await\<close> ends in one of two ways.
  Either the job ends: what follows the \<open>await\<close> then runs after the last event of the
  job; the \<open>except\<close> clauses catch \<open>ClientError\<close>, \<open>BotoCoreError\<close>, \<open>SubprocessError\<close>,
  \<open>OSError\<close>, \<open>RuntimeError\<close> and \<open>CancelledError\<close>, and \<open>finally\<close> calls
  \<open>stop_stream_to_s3\<close>. Or the task is cancelled while the job runs (the event
  \<open>AwaitCancelled\<close> among those of the job): line 175 catches the \<open>CancelledError\<close>,
  \<open>finally\<close> calls \<open>stop_stream_to_s3\<close> and the call returns, while the job goes on in
  its thread until it has seen the flag.

  The result is how the call ended, the events up to its return, the entity at its
  return, and the events of the job that come after the return of the call.
\<close>

definition start_stream_to_s3 ::
  "session_step list \<Rightarrow> entity \<Rightarrow> outcome \<times> event list \<times> entity \<times> event list" where
  "start_stream_to_s3 world e =
     (if \<not> is_on e then
        (let e1 = e\<lparr>is_on := True\<rparr> in
         case upload_to_s3_sync world e1 of
           (job, evs, e2) \<Rightarrow>
             if AwaitCancelled \<in> set evs then
               (let before = takeWhile (\<lambda>ev. ev \<noteq> AwaitCancelled) evs;
                    handler = AwaitCancelled # fst (stop_stream_to_s3 e1)
                in (Returned, ScheduleUpdate True # before @ handler,
                    snd (stop_stream_to_s3 e1), drop (length (before @ handler)) evs))
             else
               (case job of
                  Running \<Rightarrow> (Running, ScheduleUpdate True # evs, e2, [])
                | Returned \<Rightarrow>
                    (case stop_stream_to_s3 e2 of (evs', e3) \<Rightarrow>
                       (Returned, ScheduleUpdate True # evs @ evs', e3, []))
                | Raised x \<Rightarrow>
                    (case stop_stream_to_s3 e2 of (evs', e3) \<Rightarrow>
                       (if x \<in> {ClientError, BotoCoreError, SubprocessError, OSError,
                                 RuntimeError, CancelledError}
                        then Returned else Raised x,
                        ScheduleUpdate True # evs @ evs', e3, []))))
      else (Returned, [], e, []))"

text \<open>\<open>async_turn_on\<close> (lines 55-59) and \<open>async_turn_off\<close> (lines 61-63).\<close>

definition async_turn_on ::
  "session_step list \<Rightarrow> entity \<Rightarrow> outcome \<times> event list \<times> entity \<times> event list" where
  "async_turn_on world e =
     (if \<not> is_on e then start_stream_to_s3 world e else (Returned, [], e, []))"

definition async_turn_off :: "entity \<Rightarrow> event list \<times> entity" where
  "async_turn_off e = stop_stream_to_s3 e"

section \<open>The code of \<open>config_flow.py\<close>\<close>

datatype flow_exn =
    CannotConnect
  | InvalidAuth
  | InvalidStreamURL
  | AttributeError
  | OtherFlowException

text \<open>What the check of the bucket meets: \<open>boto3.client\<close> raises while it builds the
  client (for instance \<open>ValueError\<close> for a region that is no valid name), or the client
  is built and \<open>head_bucket\<close> returns, or raises \<open>NoCredentialsError\<close>,
  \<open>EndpointConnectionError\<close> or some other exception.\<close>

datatype head_bucket_reply =
    BucketOk
  | NoCredentialsError
  | EndpointConnectionError
  | HeadBucketException
  | ClientException

text \<open>A stream descriptor is a JSON object; \<open>stream.get("url")\<close> is \<open>map_of stream ''url''\<close>,
  \<open>None\<close> when the key is missing.\<close>

type_synonym stream = "(string \<times> string) list"

text \<open>The user input as \<open>validate_input\<close> reads it: what \<open>json.loads(data["streams"])\<close>
  gives (\<open>None\<close> when it raises) and what the check of the bucket meets.\<close>

record user_input =
  streams_json :: "stream list option"
  head_bucket :: head_bucket_reply

datatype flow_result =
    CreateEntry string user_input
  | ShowForm "(string \<times> string) list"

text \<open>\<open>str.startswith\<close>.\<close>

definition startswith :: "string \<Rightarrow> string \<Rightarrow> bool" where
  "startswith s p = (take (length p) s = p)"

text \<open>\<open>validate_bucket_sync\<close> (lines 47-69). The call of \<open>boto3.client\<close> stands before
  the \<open>try\<close>: what it raises leaves the function as it is, and is none of the three
  exceptions of the flow.\<close>

definition validate_bucket_sync :: "head_bucket_reply \<Rightarrow> flow_exn + unit" where
  "validate_bucket_sync r =
     (case r of
        BucketOk \<Rightarrow> Inr ()
      | NoCredentialsError \<Rightarrow> Inl InvalidAuth
      | EndpointConnectionError \<Rightarrow> Inl CannotConnect
      | HeadBucketException \<Rightarrow> Inl CannotConnect
      | ClientException \<Rightarrow> Inl OtherFlowException)"

text \<open>The loop over the streams (lines 93-99).\<close>

fun validate_streams :: "stream list \<Rightarrow> flow_exn + unit" where
  "validate_streams [] = Inr ()"
| "validate_streams (stream # streams) =
     (case map_of stream ''url'' of
        None \<Rightarrow> Inl AttributeError
      | Some url \<Rightarrow>
          if \<not> startswith url ''rtsp://'' \<and> \<not> startswith url ''rtmp://''
          then Inl InvalidStreamURL
          else validate_streams streams)"

text \<open>\<open>validate_input\<close> (lines 72-101); \<open>DOMAIN\<close> comes from \<open>const.py\<close> and is a
  parameter here.\<close>

definition validate_input :: "string \<Rightarrow> user_input \<Rightarrow> flow_exn + string" where
  "validate_input DOMAIN data =
     (case streams_json data of
        None \<Rightarrow> Inl InvalidStreamURL
      | Some streams \<Rightarrow>
          (case validate_bucket_sync (head_bucket data) of
             Inl x \<Rightarrow> Inl x
           | Inr u \<Rightarrow>
               (case validate_streams streams of
                  Inl x \<Rightarrow> Inl x
                | Inr u \<Rightarrow> Inr DOMAIN)))"

text \<open>\<open>async_step_user\<close> (lines 109-128).\<close>

definition async_step_user :: "string \<Rightarrow> user_input option \<Rightarrow> flow_result" where
  "async_step_user DOMAIN input =
     (case input of
        None \<Rightarrow> ShowForm []
      | Some data \<Rightarrow>
          (case validate_input DOMAIN data of
             Inr title \<Rightarrow> CreateEntry title data
           | Inl CannotConnect \<Rightarrow> ShowForm [(''base'', ''cannot_connect'')]
           | Inl InvalidAuth \<Rightarrow> ShowForm [(''base'', ''invalid_auth'')]
           | Inl InvalidStreamURL \<Rightarrow> ShowForm [(''base'', ''invalid_stream_url'')]
           | Inl x \<Rightarrow> ShowForm [(''base'', ''unknown'')]))"

text \<open>A descriptor the validation lets through: it has a \<open>url\<close> that starts with one of
  the two scheme prefixes.\<close>

definition accepted_url :: "string \<Rightarrow> bool" where
  "accepted_url url = (startswith url ''rtsp://'' \<or> startswith url ''rtmp://'')"

definition stream_accepted :: "stream \<Rightarrow> bool" where
  "stream_accepted s =
     (case map_of s ''url'' of None \<Rightarrow> False | Some url \<Rightarrow> accepted_url url)"

definition has_url :: "stream \<Rightarrow> bool" where
  "has_url s = (map_of s ''url'' \<noteq> None)"

section \<open>Reading a list of events\<close>

text \<open>The bodies of all \<open>upload_part\<close> calls, and of those that were acknowledged.\<close>

fun part_bodies :: "event list \<Rightarrow> bytes list" where
  "part_bodies [] = []"
| "part_bodies (UploadPart b k n u body r # evs) = body # part_bodies evs"
| "part_bodies (ev # evs) = part_bodies evs"

fun acked_bodies :: "event list \<Rightarrow> bytes list" where
  "acked_bodies [] = []"
| "acked_bodies (UploadPart b k n u body (Inr tag) # evs) = body # acked_bodies evs"
| "acked_bodies (ev # evs) = acked_bodies evs"

text \<open>The data the reads returned.\<close>

fun read_chunks :: "event list \<Rightarrow> bytes list" where
  "read_chunks [] = []"
| "read_chunks (StdoutRead n (Inr c) # evs) = c # read_chunks evs"
| "read_chunks (ev # evs) = read_chunks evs"

text \<open>A call to the store that failed with a storage error: an \<open>upload_part\<close> or a
  \<open>complete_multipart_upload\<close> answered by \<open>ClientError\<close> or \<open>BotoCoreError\<close>.\<close>

fun failed_storage_call :: "event \<Rightarrow> bool" where
  "failed_storage_call (UploadPart b k n u body (Inl x)) = (x = ClientError \<or> x = BotoCoreError)"
| "failed_storage_call (CompleteMultipartUpload b k u ps (Inl x)) =
     (x = ClientError \<or> x = BotoCoreError)"
| "failed_storage_call ev = False"

fun is_abort :: "event \<Rightarrow> bool" where
  "is_abort (AbortMultipartUpload b k u r) = True"
| "is_abort ev = False"

fun is_complete :: "event \<Rightarrow> bool" where
  "is_complete (CompleteMultipartUpload b k u ps r) = True"
| "is_complete ev = False"

text \<open>A call to the store that is made on the upload \<open>uid\<close> of the object \<open>key\<close>, or
  is no call to the store on an open upload at all.\<close>

fun on_upload :: "string \<Rightarrow> upload_id \<Rightarrow> event \<Rightarrow> bool" where
  "on_upload key uid (UploadPart b k n u body r) = (k = key \<and> u = uid)"
| "on_upload key uid (CompleteMultipartUpload b k u ps r) = (k = key \<and> u = uid)"
| "on_upload key uid (AbortMultipartUpload b k u r) = (k = key \<and> u = uid)"
| "on_upload key uid ev = True"

fun is_upload_part :: "event \<Rightarrow> bool" where
  "is_upload_part (UploadPart b k n u body r) = True"
| "is_upload_part ev = False"

fun is_read :: "event \<Rightarrow> bool" where
  "is_read (StdoutRead n r) = True"
| "is_read ev = False"

fun is_launch :: "event \<Rightarrow> bool" where
  "is_launch (Popen argv r) = True"
| "is_launch ev = False"



text \<open>The events by which a segment that reads no more comes to its end: a part is
  sent, the upload is completed or aborted, the \<open>with\<close> block is left, the child is
  terminated and waited for.\<close>

fun ends_segment :: "event \<Rightarrow> bool" where
  "ends_segment (UploadPart b k n u body r) = True"
| "ends_segment (CompleteMultipartUpload b k u ps r) = True"
| "ends_segment (AbortMultipartUpload b k u r) = True"
| "ends_segment (PopenExit p) = True"
| "ends_segment (Terminate p) = True"
| "ends_segment (Wait p) = True"
| "ends_segment ev = False"




text \<open>The steps of a script that are reads answered with data.\<close>

fun data_step :: "read_step \<Rightarrow> bool" where
  "data_step (ReadReply (Inr c)) = (c \<noteq> [])"
| "data_step s = False"

fun step_data :: "read_step \<Rightarrow> bytes" where
  "step_data (ReadReply (Inr c)) = c"
| "step_data s = []"

fun step_size :: "read_step \<Rightarrow> nat" where
  "step_size (ReadReply (Inr c)) = length c"
| "step_size s = 0"

section \<open>Example runs\<close>

definition cam :: entity where
  "cam = \<lparr>stream_name = ''cam'', stream_url = ''rtsp://h/s'', bucket_name = ''b'',
          ffmpeg_command = ''ffmpeg -i rtsp://h/s'', is_on = False\<rparr>"

definition seg_env :: "string \<Rightarrow> upload_id \<Rightarrow> pid \<Rightarrow> read_step list \<Rightarrow> segment_env" where
  "seg_env stamp uid p script =
     \<lparr>now_strftime = stamp, create_reply = Inr uid, popen_reply = Inr p,
      stdout_script = script, upload_part_reply = (\<lambda>n. Inr ''tag''),
      complete_reply = Inr (), abort_reply = Inr ()\<rparr>"

text \<open>One mebibyte of zero bytes, the most a single read returns.\<close>

definition mib :: bytes where
  "mib = replicate 1048576 0"

text \<open>A child that writes twelve mebibytes and ends.\<close>

definition twelve_mib :: "read_step list" where
  "twelve_mib =
     [ReadReply (Inr mib), ReadReply (Inr mib), ReadReply (Inr mib), ReadReply (Inr mib),
      ReadReply (Inr mib), ReadReply (Inr mib), ReadReply (Inr mib), ReadReply (Inr mib),
      ReadReply (Inr mib), ReadReply (Inr mib), ReadReply (Inr mib), ReadReply (Inr mib)]"

text \<open>A segment whose child writes three bytes and ends, while the store refuses every
  part; and a segment whose child ends at once.\<close>

definition failing_store :: segment_env where
  "failing_store =
     (seg_env ''2024/01/01/20240101000000_'' ''u1'' 7 [ReadReply (Inr [1, 2, 3])])
       \<lparr>upload_part_reply := (\<lambda>n. Inl ClientError)\<rparr>"

definition silent_child :: segment_env where
  "silent_child = seg_env ''2024/01/01/20240101001000_'' ''u2'' 8 []"

text \<open>A segment stopped from outside after three bytes, with a store that works, and the
  same with a store that refuses to complete the upload.\<close>

definition stopped_segment :: segment_env where
  "stopped_segment =
     seg_env ''2024/01/01/20240101000000_'' ''u1'' 7
       [ReadReply (Inr [1, 2, 3]), ExternalStop, ReadReply (Inr [4, 5])]"

definition stopped_segment_refused :: segment_env where
  "stopped_segment_refused = stopped_segment\<lparr>complete_reply := Inl ClientError\<rparr>"

text \<open>A segment during which the task that awaits the job is cancelled, after three
  bytes; and a segment whose child's pipe breaks after three bytes.\<close>

definition cancelled_segment :: segment_env where
  "cancelled_segment =
     seg_env ''2024/01/01/20240101000000_'' ''u1'' 7
       [ReadReply (Inr [1, 2, 3]), ExternalCancel, ReadReply (Inr [4, 5])]"

definition broken_pipe :: segment_env where
  "broken_pipe =
     seg_env ''2024/01/01/20240101000000_'' ''u1'' 7
       [ReadReply (Inr [1, 2, 3]), ReadReply (Inl OSError)]"

text \<open>A segment whose ffmpeg cannot be launched.\<close>

definition no_ffmpeg :: segment_env where
  "no_ffmpeg =
     (seg_env ''2024/01/01/20240101000000_'' ''u1'' 7 [])\<lparr>popen_reply := Inl OSError\<rparr>"

definition cam_on :: entity where
  "cam_on = cam\<lparr>is_on := True\<rparr>"

section \<open>Facts about the read loop\<close>

lemma length_mib: "length mib = 1048576"
  by (simp add: mib_def)

lemma mib_not_empty: "mib \<noteq> []"
  using length_mib by fastforce

lemmas run_defs = read_pass_def Let_def stop_stream_to_s3_def chunk_threshold_def read_size_def
  cam_def cam_on_def seg_env_def final_flush_def capture_and_upload_def try_block_def
  except_clauses_def finally_clause_def segment_def upload_to_s3_sync_def
  start_stream_to_s3_def async_turn_on_def length_mib mib_not_empty
  failing_store_def silent_child_def stopped_segment_def stopped_segment_refused_def
  no_ffmpeg_def cancelled_segment_def broken_pipe_def


lemma stop_off: "\<not> is_on (snd (stop_stream_to_s3 e))"
  by (simp add: stop_stream_to_s3_def)

lemma stop_on: "is_on e \<Longrightarrow> stop_stream_to_s3 e = ([ScheduleUpdate False], e\<lparr>is_on := False\<rparr>)"
  by (simp add: stop_stream_to_s3_def)

lemma stop_idle: "\<not> is_on e \<Longrightarrow> stop_stream_to_s3 e = ([], e)"
  by (simp add: stop_stream_to_s3_def)

lemma read_loop_off:
  assumes "\<not> is_on e"
  shows "read_loop T R env key uid steps e ls = (None, [], e, ls)"
proof (cases steps)
  case Nil
  with assms show ?thesis by simp
next
  case (Cons s ss)
  with assms show ?thesis by (cases s) auto
qed

lemma read_loop_stop:
  "is_on e \<Longrightarrow> read_loop T R env key uid (ExternalStop # steps) e ls =
     (None, [ScheduleUpdate False], e\<lparr>is_on := False\<rparr>, ls)"
  by (simp add: stop_on read_loop_off)

lemma read_loop_cancel:
  "is_on e \<Longrightarrow> read_loop T R env key uid (ExternalCancel # steps) e ls =
     (None, [AwaitCancelled, ScheduleUpdate False], e\<lparr>is_on := False\<rparr>, ls)"
  by (simp add: stop_on read_loop_off)

lemma read_loop_on_induct [consumes 1, case_names Eof Stop Cancel Break Raise Continue]:
  assumes on: "is_on e"
    and eof: "\<And>ls. P [] ls (None, [StdoutRead R (Inr [])], e, ls)"
    and stop: "\<And>steps ls. P (ExternalStop # steps) ls
                 (None, [ScheduleUpdate False], e\<lparr>is_on := False\<rparr>, ls)"
    and cancel: "\<And>steps ls. P (ExternalCancel # steps) ls
                 (None, [AwaitCancelled, ScheduleUpdate False], e\<lparr>is_on := False\<rparr>, ls)"
    and brk: "\<And>reply steps ls evs0 ls0.
                 read_pass T R env key uid e ls reply = (Break, evs0, ls0) \<Longrightarrow>
                 P (ReadReply reply # steps) ls (None, evs0, e, ls0)"
    and rse: "\<And>reply steps ls x evs0 ls0.
                 read_pass T R env key uid e ls reply = (Raise x, evs0, ls0) \<Longrightarrow>
                 P (ReadReply reply # steps) ls (Some x, evs0, e, ls0)"
    and cont: "\<And>reply steps ls evs0 ls0 r evs e' ls'.
                 read_pass T R env key uid e ls reply = (Continue, evs0, ls0) \<Longrightarrow>
                 read_loop T R env key uid steps e ls0 = (r, evs, e', ls') \<Longrightarrow>
                 P steps ls0 (r, evs, e', ls') \<Longrightarrow>
                 P (ReadReply reply # steps) ls (r, evs0 @ evs, e', ls')"
  shows "P steps ls (read_loop T R env key uid steps e ls)"
proof (induction steps arbitrary: ls)
  case Nil
  show ?case using on eof by simp
next
  case (Cons s steps)
  show ?case
  proof (cases s)
    case ExternalStop
    then show ?thesis using stop[of steps ls] by (simp only: read_loop_stop[OF on])
  next
    case ExternalCancel
    then show ?thesis using cancel[of steps ls] by (simp only: read_loop_cancel[OF on])
  next
    case (ReadReply reply)
    obtain pe evs0 ls0 where p: "read_pass T R env key uid e ls reply = (pe, evs0, ls0)"
      by (cases "read_pass T R env key uid e ls reply") auto
    show ?thesis
    proof (cases pe)
      case Break
      with p brk[of ls reply evs0 ls0 steps] on ReadReply show ?thesis by simp
    next
      case (Raise x)
      with p rse[of ls reply x evs0 ls0 steps] on ReadReply show ?thesis by simp
    next
      case Continue
      obtain r evs e' ls' where l: "read_loop T R env key uid steps e ls0 = (r, evs, e', ls')"
        by (cases "read_loop T R env key uid steps e ls0") auto
      from Cons.IH[of ls0] l have "P steps ls0 (r, evs, e', ls')" by simp
      from cont[OF p[unfolded Continue] l this] p Continue l on ReadReply
      show ?thesis by simp
    qed
  qed
qed

lemma read_pass_cases:
  obtains
    (ReadFails) x where "reply = Inl x"
      "read_pass T R env key uid e ls reply = (Raise x, [StdoutRead R (Inl x)], ls)"
  | (Eof) "reply = Inr []"
      "read_pass T R env key uid e ls reply = (Break, [StdoutRead R (Inr [])], ls)"
  | (Buffered) c where "reply = Inr c" "c \<noteq> []" "length (buffer ls @ c) \<le> T"
      "read_pass T R env key uid e ls reply =
         (Continue, [StdoutRead R (Inr c)], ls\<lparr>buffer := buffer ls @ c\<rparr>)"
  | (PartFails) c x where "reply = Inr c" "c \<noteq> []" "T < length (buffer ls @ c)"
      "upload_part_reply env (part_number ls) = Inl x"
      "read_pass T R env key uid e ls reply =
         (Raise x, [StdoutRead R (Inr c),
                    UploadPart (bucket_name e) key (part_number ls) uid (buffer ls @ c) (Inl x)],
          ls\<lparr>buffer := buffer ls @ c\<rparr>)"
  | (Flushed) c tag where "reply = Inr c" "c \<noteq> []" "T < length (buffer ls @ c)"
      "upload_part_reply env (part_number ls) = Inr tag"
      "read_pass T R env key uid e ls reply =
         (Continue, [StdoutRead R (Inr c),
                     UploadPart (bucket_name e) key (part_number ls) uid (buffer ls @ c) (Inr tag)],
          ls\<lparr>buffer := [], parts := parts ls @ [(part_number ls, tag)],
             part_number := part_number ls + 1\<rparr>)"
proof (cases reply)
  case (Inl x)
  then show ?thesis using ReadFails by (simp add: read_pass_def Let_def)
next
  case (Inr c)
  show ?thesis
  proof (cases "c = []")
    case True
    with Inr show ?thesis using Eof by (simp add: read_pass_def Let_def)
  next
    case False
    show ?thesis
    proof (cases "T < length (buffer ls @ c)")
      case small: False
      with Inr False show ?thesis using Buffered[of c] by (simp add: read_pass_def Let_def)
    next
      case True
      show ?thesis
      proof (cases "upload_part_reply env (part_number ls)")
        case (Inl x)
        with Inr False True show ?thesis using PartFails[of c x] by (simp add: read_pass_def Let_def)
      next
        case ack: (Inr tag)
        with Inr False True show ?thesis using Flushed[of c tag] by (simp add: read_pass_def Let_def)
      qed
    qed
  qed
qed

lemma read_pass_events:
  "read_pass T R env key uid e ls reply = (pe, evs, ls') \<Longrightarrow> ev \<in> set evs \<Longrightarrow>
     is_read ev \<or> is_upload_part ev"
  by (cases rule: read_pass_cases[of reply T R env key uid e ls]) auto

lemma read_loop_events:
  "read_loop T R env key uid steps e ls = (r, evs, e', ls') \<Longrightarrow> ev \<in> set evs \<Longrightarrow>
     is_read ev \<or> is_upload_part ev \<or> ev = ScheduleUpdate False \<or> ev = AwaitCancelled"
proof (cases "is_on e")
  case False
  assume "read_loop T R env key uid steps e ls = (r, evs, e', ls')" "ev \<in> set evs"
  with False show ?thesis by (simp add: read_loop_off)
next
  case True
  assume a: "read_loop T R env key uid steps e ls = (r, evs, e', ls')" "ev \<in> set evs"
  have "case read_loop T R env key uid steps e ls of
          (r, evs, e', ls') \<Rightarrow>
            \<forall>ev\<in>set evs. is_read ev \<or> is_upload_part ev \<or> ev = ScheduleUpdate False
                         \<or> ev = AwaitCancelled"
    using True
  proof (rule read_loop_on_induct[where P = "\<lambda>steps ls res. case res of
          (r, evs, e', ls') \<Rightarrow>
            \<forall>ev\<in>set evs. is_read ev \<or> is_upload_part ev \<or> ev = ScheduleUpdate False
                         \<or> ev = AwaitCancelled"])
  qed (auto dest: read_pass_events)
  with a show ?thesis by auto
qed

lemma read_loop_flag:
  "read_loop T R env key uid steps e ls = (r, evs, e', ls') \<Longrightarrow>
     e' = e \<or> (is_on e \<and> e' = e\<lparr>is_on := False\<rparr>)"
proof (cases "is_on e")
  case False
  assume "read_loop T R env key uid steps e ls = (r, evs, e', ls')"
  with False show ?thesis by (simp add: read_loop_off)
next
  case True
  assume a: "read_loop T R env key uid steps e ls = (r, evs, e', ls')"
  have "case read_loop T R env key uid steps e ls of
          (r, evs, e', ls') \<Rightarrow> e' = e \<or> e' = e\<lparr>is_on := False\<rparr>"
    using True
    by (rule read_loop_on_induct[where P = "\<lambda>steps ls res. case res of
          (r, evs, e', ls') \<Rightarrow> e' = e \<or> e' = e\<lparr>is_on := False\<rparr>"]) auto
  with a True show ?thesis by auto
qed

lemma read_loop_no_stop:
  "read_loop T R env key uid steps e ls = (r, evs, e', ls') \<Longrightarrow>
     ExternalStop \<notin> set steps \<Longrightarrow> ExternalCancel \<notin> set steps \<Longrightarrow> e' = e"
proof (cases "is_on e")
  case False
  assume "read_loop T R env key uid steps e ls = (r, evs, e', ls')"
  with False show ?thesis by (simp add: read_loop_off)
next
  case True
  assume a: "read_loop T R env key uid steps e ls = (r, evs, e', ls')"
    "ExternalStop \<notin> set steps" "ExternalCancel \<notin> set steps"
  have "case read_loop T R env key uid steps e ls of
          (r, evs, e', ls') \<Rightarrow>
            ExternalStop \<notin> set steps \<longrightarrow> ExternalCancel \<notin> set steps \<longrightarrow> e' = e"
    using True
    by (rule read_loop_on_induct[where P = "\<lambda>steps ls res. case res of
          (r, evs, e', ls') \<Rightarrow>
            ExternalStop \<notin> set steps \<longrightarrow> ExternalCancel \<notin> set steps \<longrightarrow> e' = e"]) auto
  with a show ?thesis by auto
qed

lemma read_pass_conserve:
  "read_pass T R env key uid e ls reply = (pe, evs, ls') \<Longrightarrow>
     concat (acked_bodies evs) @ buffer ls' = buffer ls @ concat (read_chunks evs)"
  by (cases rule: read_pass_cases[of reply T R env key uid e ls]) auto

lemma acked_bodies_append: "acked_bodies (xs @ ys) = acked_bodies xs @ acked_bodies ys"
  by (induction xs rule: acked_bodies.induct) auto

lemma part_bodies_append: "part_bodies (xs @ ys) = part_bodies xs @ part_bodies ys"
  by (induction xs rule: part_bodies.induct) auto

lemma read_chunks_append: "read_chunks (xs @ ys) = read_chunks xs @ read_chunks ys"
  by (induction xs rule: read_chunks.induct) auto

lemma read_loop_conserve:
  "read_loop T R env key uid steps e ls = (r, evs, e', ls') \<Longrightarrow>
     concat (acked_bodies evs) @ buffer ls' = buffer ls @ concat (read_chunks evs)"
proof (cases "is_on e")
  case False
  assume "read_loop T R env key uid steps e ls = (r, evs, e', ls')"
  with False show ?thesis by (simp add: read_loop_off)
next
  case True
  assume a: "read_loop T R env key uid steps e ls = (r, evs, e', ls')"
  have "case read_loop T R env key uid steps e ls of
          (r, evs, e', ls') \<Rightarrow>
            concat (acked_bodies evs) @ buffer ls' = buffer ls @ concat (read_chunks evs)"
    using True
  proof (rule read_loop_on_induct[where P = "\<lambda>steps ls res. case res of
          (r, evs, e', ls') \<Rightarrow>
            concat (acked_bodies evs) @ buffer ls' = buffer ls @ concat (read_chunks evs)"])
    fix reply steps ls evs0 ls0 r evs e' ls'
    assume p: "read_pass T R env key uid e ls reply = (Continue, evs0, ls0)"
      and ih: "case (r, evs, e', ls') of
          (r, evs, e', ls') \<Rightarrow>
            concat (acked_bodies evs) @ buffer ls' = buffer ls0 @ concat (read_chunks evs)"
    from read_pass_conserve[OF p]
    have "concat (acked_bodies evs0) @ buffer ls0 = buffer ls @ concat (read_chunks evs0)" .
    with ih show "case (r, evs0 @ evs, e', ls') of
          (r, evs, e', ls') \<Rightarrow>
            concat (acked_bodies evs) @ buffer ls' = buffer ls @ concat (read_chunks evs)"
      by (simp add: acked_bodies_append read_chunks_append)
  qed (auto dest: read_pass_conserve)
  with a show ?thesis by auto
qed


lemma read_pass_bounds:
  "read_pass T R env key uid e ls reply = (pe, evs, ls') \<Longrightarrow>
     (case reply of Inl x \<Rightarrow> True | Inr c \<Rightarrow> length c \<le> R) \<Longrightarrow> length (buffer ls) \<le> T \<Longrightarrow>
     (\<forall>body\<in>set (part_bodies evs). T < length body \<and> length body \<le> T + R)
     \<and> length (buffer ls') \<le> T + R \<and> ((\<forall>x. pe \<noteq> Raise x) \<longrightarrow> length (buffer ls') \<le> T)"
  by (cases rule: read_pass_cases[of reply T R env key uid e ls]) auto

section \<open>The buffer of the read loop\<close>

lemma read_loop_bounds:
  assumes run: "read_loop T R env key uid steps e ls = (r, evs, e', ls')"
    and sizes: "\<forall>s\<in>set steps. step_size s \<le> R"
    and small: "length (buffer ls) \<le> T"
  shows "(\<forall>body\<in>set (part_bodies evs). T < length body \<and> length body \<le> T + R)
     \<and> length (buffer ls') \<le> T + R \<and> (r = None \<longrightarrow> length (buffer ls') \<le> T)"
proof (cases "is_on e")
  case False
  with run small show ?thesis by (simp add: read_loop_off) 
next
  case True
  let ?Q = "\<lambda>steps ls res. case res of
          (r, evs, e', ls') \<Rightarrow>
            (\<forall>s\<in>set steps. step_size s \<le> R) \<longrightarrow> length (buffer ls) \<le> T \<longrightarrow>
            (\<forall>body\<in>set (part_bodies evs). T < length body \<and> length body \<le> T + R)
            \<and> length (buffer ls') \<le> T + R \<and> (r = None \<longrightarrow> length (buffer ls') \<le> T)"
  have "?Q steps ls (read_loop T R env key uid steps e ls)"
    using True
  proof (rule read_loop_on_induct[where P = ?Q])
    fix reply steps ls evs0 ls0 r evs e' ls'
    assume p: "read_pass T R env key uid e ls reply = (Continue, evs0, ls0)"
      and ih: "?Q steps ls0 (r, evs, e', ls')"
    show "?Q (ReadReply reply # steps) ls (r, evs0 @ evs, e', ls')"
    proof (clarify)
      assume s: "\<forall>s\<in>set (ReadReply reply # steps). step_size s \<le> R"
        and b: "length (buffer ls) \<le> T"
      have "case reply of Inl x \<Rightarrow> True | Inr c \<Rightarrow> length c \<le> R"
        using s by (cases reply) auto
      from read_pass_bounds[OF p this b]
      have p': "(\<forall>body\<in>set (part_bodies evs0). T < length body \<and> length body \<le> T + R)"
        "length (buffer ls0) \<le> T" by auto
      with ih s
      show "(\<forall>body\<in>set (part_bodies (evs0 @ evs)). T < length body \<and> length body \<le> T + R)
            \<and> length (buffer ls') \<le> T + R \<and> (r = None \<longrightarrow> length (buffer ls') \<le> T)"
        by (auto simp: part_bodies_append)
    qed
  next
    fix reply steps ls evs0 ls0
    assume p: "read_pass T R env key uid e ls reply = (Break, evs0, ls0)"
    show "?Q (ReadReply reply # steps) ls (None, evs0, e, ls0)"
    proof (clarify)
      assume s: "\<forall>s\<in>set (ReadReply reply # steps). step_size s \<le> R"
        and b: "length (buffer ls) \<le> T"
      have "case reply of Inl x \<Rightarrow> True | Inr c \<Rightarrow> length c \<le> R"
        using s by (cases reply) auto
      from read_pass_bounds[OF p this b]
      show "(\<forall>body\<in>set (part_bodies evs0). T < length body \<and> length body \<le> T + R)
            \<and> length (buffer ls0) \<le> T + R \<and> (None = None \<longrightarrow> length (buffer ls0) \<le> T)"
        by auto
    qed
  next
    fix reply steps ls x evs0 ls0
    assume p: "read_pass T R env key uid e ls reply = (Raise x, evs0, ls0)"
    show "?Q (ReadReply reply # steps) ls (Some x, evs0, e, ls0)"
    proof (clarify)
      assume s: "\<forall>s\<in>set (ReadReply reply # steps). step_size s \<le> R"
        and b: "length (buffer ls) \<le> T"
      have "case reply of Inl x \<Rightarrow> True | Inr c \<Rightarrow> length c \<le> R"
        using s by (cases reply) auto
      from read_pass_bounds[OF p this b]
      show "(\<forall>body\<in>set (part_bodies evs0). T < length body \<and> length body \<le> T + R)
            \<and> length (buffer ls0) \<le> T + R \<and> (Some x = None \<longrightarrow> length (buffer ls0) \<le> T)"
        by auto
    qed
  qed auto
  with run sizes small show ?thesis by auto
qed

lemma set_take_bound: "\<forall>s\<in>set steps. P s \<Longrightarrow> \<forall>s\<in>set (take k steps). P s"
  by (auto dest: in_set_takeD)

section \<open>Parts and input\<close>

lemma read_pass_data:
  assumes "data_step (ReadReply reply)" "\<forall>n. \<exists>tag. upload_part_reply env n = Inr tag"
    "length (buffer ls) \<le> T"
  shows "\<exists>evs ls'. read_pass T R env key uid e ls reply = (Continue, evs, ls')
     \<and> read_chunks evs = [step_data (ReadReply reply)]
     \<and> acked_bodies evs = part_bodies evs
     \<and> (\<forall>b\<in>set (part_bodies evs). T < length b)
     \<and> length (buffer ls') \<le> T
     \<and> concat (part_bodies evs) @ buffer ls' = buffer ls @ step_data (ReadReply reply)"
proof (cases rule: read_pass_cases[of reply T R env key uid e ls])
  case (ReadFails x)
  with assms show ?thesis by simp
next
  case Eof
  with assms show ?thesis by simp
next
  case (Buffered c)
  with assms show ?thesis by simp
next
  case (PartFails c x)
  with assms(2) show ?thesis by (metis sum.distinct(1))
next
  case (Flushed c tag)
  with assms show ?thesis by simp
qed

lemma read_loop_data:
  assumes on: "is_on e"
    and acks: "\<forall>n. \<exists>tag. upload_part_reply env n = Inr tag"
  shows "(\<forall>s\<in>set steps. data_step s) \<longrightarrow> length (buffer ls) \<le> T \<longrightarrow>
     (\<exists>evs ls'. read_loop T R env key uid steps e ls = (None, evs, e, ls')
       \<and> concat (read_chunks evs) = concat (map step_data steps)
       \<and> acked_bodies evs = part_bodies evs
       \<and> (\<forall>b\<in>set (part_bodies evs). T < length b)
       \<and> length (buffer ls') \<le> T
       \<and> concat (part_bodies evs) @ buffer ls' = buffer ls @ concat (map step_data steps))"
proof (induction steps arbitrary: ls)
  case Nil
  show ?case using on by simp
next
  case (Cons s steps)
  show ?case
  proof (intro impI)
    assume d: "\<forall>s\<in>set (s # steps). data_step s" and b: "length (buffer ls) \<le> T"
    from d obtain reply where s: "s = ReadReply reply" by (cases s) auto
    from d s have ds: "data_step (ReadReply reply)" by simp
    from read_pass_data[OF ds acks b, of R key uid e]
    obtain evs0 ls0 where p: "read_pass T R env key uid e ls reply = (Continue, evs0, ls0)"
      and p1: "read_chunks evs0 = [step_data (ReadReply reply)]"
      and p2: "acked_bodies evs0 = part_bodies evs0"
      and p3: "\<forall>b\<in>set (part_bodies evs0). T < length b"
      and p4: "length (buffer ls0) \<le> T"
      and p5: "concat (part_bodies evs0) @ buffer ls0 = buffer ls @ step_data (ReadReply reply)"
      by blast
    from Cons.IH[of ls0] d p4
    obtain evs ls' where l: "read_loop T R env key uid steps e ls0 = (None, evs, e, ls')"
      and l1: "concat (read_chunks evs) = concat (map step_data steps)"
      and l2: "acked_bodies evs = part_bodies evs"
      and l3: "\<forall>b\<in>set (part_bodies evs). T < length b"
      and l4: "length (buffer ls') \<le> T"
      and l5: "concat (part_bodies evs) @ buffer ls' = buffer ls0 @ concat (map step_data steps)"
      by auto
    have run: "read_loop T R env key uid (s # steps) e ls = (None, evs0 @ evs, e, ls')"
      using on s p l by simp
    have c5: "concat (part_bodies (evs0 @ evs)) @ buffer ls'
                = buffer ls @ concat (map step_data (s # steps))"
    proof -
      have "concat (part_bodies (evs0 @ evs)) @ buffer ls'
              = concat (part_bodies evs0) @ (concat (part_bodies evs) @ buffer ls')"
        by (simp add: part_bodies_append)
      also have "\<dots> = (concat (part_bodies evs0) @ buffer ls0) @ concat (map step_data steps)"
        using l5 by simp
      also have "\<dots> = buffer ls @ concat (map step_data (s # steps))"
        using p5 s by simp
      finally show ?thesis .
    qed
    show "\<exists>evs ls'. read_loop T R env key uid (s # steps) e ls = (None, evs, e, ls')
       \<and> concat (read_chunks evs) = concat (map step_data (s # steps))
       \<and> acked_bodies evs = part_bodies evs
       \<and> (\<forall>b\<in>set (part_bodies evs). T < length b)
       \<and> length (buffer ls') \<le> T
       \<and> concat (part_bodies evs) @ buffer ls' = buffer ls @ concat (map step_data (s # steps))"
      using run p1 p2 p3 l1 l2 l3 l4 c5 s
      by (auto simp: part_bodies_append acked_bodies_append read_chunks_append)
  qed
qed

lemma long_bodies_length:
  "\<forall>b\<in>set bs. T < length b \<Longrightarrow> length bs * Suc T \<le> length (concat bs)"
  by (induction bs) auto

lemma length_step_data: "length (concat (map step_data steps)) = sum_list (map step_size steps)"
proof (induction steps)
  case Nil
  show ?case by simp
next
  case (Cons s steps)
  have "length (step_data s) = step_size s"
    by (cases s rule: step_data.cases) auto
  with Cons show ?case by simp
qed

lemma capture_bodies:
  assumes on: "is_on e"
    and data: "\<forall>s\<in>set (stdout_script env). data_step s"
    and acks: "\<forall>n. \<exists>tag. upload_part_reply env n = Inr tag"
    and run: "capture_and_upload T R env key uid e = (r, evs, e')"
  shows "\<exists>long rest. part_bodies evs = long @ (if rest = [] then [] else [rest])
     \<and> (\<forall>b\<in>set long. T < length b) \<and> length rest \<le> T
     \<and> concat long @ rest = concat (map step_data (stdout_script env))"
proof -
  let ?ls0 = "\<lparr>buffer = [], parts = [], part_number = 1\<rparr>"
  from read_loop_data[OF on acks, of "stdout_script env" ?ls0 T R key uid] data
  obtain evs1 ls1 where
    l: "read_loop T R env key uid (stdout_script env) e ?ls0 = (None, evs1, e, ls1)"
    and l3: "\<forall>b\<in>set (part_bodies evs1). T < length b"
    and l4: "length (buffer ls1) \<le> T"
    and l5: "concat (part_bodies evs1) @ buffer ls1 = concat (map step_data (stdout_script env))"
    by auto
  obtain tag where ack: "upload_part_reply env (part_number ls1) = Inr tag"
    using acks by blast
  obtain r2 evs2 ls2 where f: "final_flush env key uid e ls1 = (r2, evs2, ls2)"
    by (cases "final_flush env key uid e ls1") auto
  have f': "r2 = None \<and> part_bodies evs2 = (if buffer ls1 = [] then [] else [buffer ls1])"
    using f ack by (auto simp: final_flush_def Let_def split: if_splits)
  have "part_bodies evs = part_bodies evs1 @ part_bodies evs2"
    using run l f f'
    by (auto simp: capture_and_upload_def Let_def part_bodies_append split: sum.splits)
  with f' l3 l4 l5 show ?thesis
    by (intro exI[of _ "part_bodies evs1"] exI[of _ "buffer ls1"]) simp
qed

lemma count_bound:
  assumes T: "0 < T" and long: "\<forall>b\<in>set long. T < length b"
  shows "length (long @ (if rest = [] then [] else [rest]))
           \<le> (length (concat long @ rest) + T - 1) div T"
proof -
  define a where "a = length long * T"
  have "length long * Suc T \<le> length (concat long)"
    using long by (rule long_bodies_length)
  then have k: "a + length long \<le> length (concat long)"
    by (simp add: a_def)
  show ?thesis
  proof (cases "rest = []")
    case True
    have "a \<le> length (concat long) + T - 1"
      using k T by arith
    then show ?thesis using True T by (simp add: less_eq_div_iff_mult_less_eq a_def)
  next
    case False
    then have "1 \<le> length rest" by (cases rest) auto
    then have "a + T \<le> length (concat long) + length rest + T - 1"
      using k T by arith
    then show ?thesis using False T by (simp add: less_eq_div_iff_mult_less_eq a_def)
  qed
qed

section \<open>Failed calls to the store\<close>

lemma read_pass_failed:
  assumes "read_pass T R env key uid e ls reply = (pe, evs, ls')"
    and "\<exists>ev\<in>set evs. failed_storage_call ev"
  shows "\<exists>pre ev x. evs = pre @ [ev] \<and> failed_storage_call ev \<and> pe = Raise x
     \<and> (x = ClientError \<or> x = BotoCoreError) \<and> (\<forall>ev'\<in>set pre. \<not> failed_storage_call ev')"
proof (cases rule: read_pass_cases[of reply T R env key uid e ls])
  case (PartFails c x)
  with assms have "x = ClientError \<or> x = BotoCoreError" by auto
  with PartFails assms(1) show ?thesis
    by (intro exI[of _ "[StdoutRead R (Inr c)]"]
          exI[of _ "UploadPart (bucket_name e) key (part_number ls) uid (buffer ls @ c) (Inl x)"]
          exI[of _ x]) auto
qed (use assms in auto)

lemma read_pass_continue_ok:
  "read_pass T R env key uid e ls reply = (Continue, evs, ls') \<Longrightarrow>
     \<forall>ev\<in>set evs. \<not> failed_storage_call ev"
  by (cases rule: read_pass_cases[of reply T R env key uid e ls]) auto

lemma read_loop_failed:
  assumes run: "read_loop T R env key uid steps e ls = (r, evs, e', ls')"
    and failed: "\<exists>ev\<in>set evs. failed_storage_call ev"
  shows "\<exists>pre ev x. evs = pre @ [ev] \<and> failed_storage_call ev \<and> r = Some x
     \<and> (x = ClientError \<or> x = BotoCoreError) \<and> (\<forall>ev'\<in>set pre. \<not> failed_storage_call ev')"
proof (cases "is_on e")
  case False
  with run failed show ?thesis by (simp add: read_loop_off)
next
  case True
  let ?Q = "\<lambda>res. case res of (r, evs, e', ls') \<Rightarrow>
     (\<exists>ev\<in>set evs. failed_storage_call ev) \<longrightarrow>
     (\<exists>pre ev x. evs = pre @ [ev] \<and> failed_storage_call ev \<and> r = Some x
       \<and> (x = ClientError \<or> x = BotoCoreError) \<and> (\<forall>ev'\<in>set pre. \<not> failed_storage_call ev'))"
  have "?Q (read_loop T R env key uid steps e ls)"
    using True
  proof (rule read_loop_on_induct[where P = "\<lambda>steps ls res. ?Q res"])
    fix reply steps ls evs0 ls0
    assume p: "read_pass T R env key uid e ls reply = (Break, evs0, ls0)"
    show "?Q (None, evs0, e, ls0)"
      using read_pass_failed[OF p] by auto
  next
    fix reply steps ls y evs0 ls0
    assume p: "read_pass T R env key uid e ls reply = (Raise y, evs0, ls0)"
    show "?Q (Some y, evs0, e, ls0)"
      using read_pass_failed[OF p] by auto
  next
    fix reply steps ls evs0 ls0 r evs e' ls'
    assume p: "read_pass T R env key uid e ls reply = (Continue, evs0, ls0)"
      and ih: "?Q (r, evs, e', ls')"
    have ok: "\<forall>ev\<in>set evs0. \<not> failed_storage_call ev"
      by (rule read_pass_continue_ok[OF p])
    show "?Q (r, evs0 @ evs, e', ls')"
    proof (clarify)
      fix ev assume "ev \<in> set (evs0 @ evs)" "failed_storage_call ev"
      with ok have "\<exists>ev\<in>set evs. failed_storage_call ev" by auto
      with ih obtain pre ev' x where
        "evs = pre @ [ev']" "failed_storage_call ev'" "r = Some x"
        "x = ClientError \<or> x = BotoCoreError" "\<forall>ev'\<in>set pre. \<not> failed_storage_call ev'"
        by auto
      with ok show "\<exists>pre ev x. evs0 @ evs = pre @ [ev] \<and> failed_storage_call ev \<and> r = Some x
         \<and> (x = ClientError \<or> x = BotoCoreError) \<and> (\<forall>ev'\<in>set pre. \<not> failed_storage_call ev')"
        by (intro exI[of _ "evs0 @ pre"] exI[of _ ev'] exI[of _ x]) auto
    qed
  qed auto
  with run failed show ?thesis by auto
qed

lemma read_loop_ok:
  assumes run: "read_loop T R env key uid steps e ls = (None, evs, e', ls')"
  shows "\<forall>ev\<in>set evs. \<not> failed_storage_call ev"
  using read_loop_failed[OF run] by auto

lemma final_flush_failed:
  assumes "final_flush env key uid e ls = (r, evs, ls')"
    and "\<exists>ev\<in>set evs. failed_storage_call ev"
  shows "\<exists>ev x. evs = [ev] \<and> failed_storage_call ev \<and> r = Some x
     \<and> (x = ClientError \<or> x = BotoCoreError)"
  using assms by (auto simp: final_flush_def Let_def split: if_splits sum.splits)

lemma final_flush_events:
  assumes "final_flush env key uid e ls = (r, evs, ls')"
  shows "\<forall>ev\<in>set evs. is_upload_part ev"
  using assms by (auto simp: final_flush_def Let_def split: if_splits sum.splits)


lemma capture_cases:
  obtains
    (LoopRaises) x evs1 e1 ls1 where
      "read_loop T R env key uid (stdout_script env) e
         \<lparr>buffer = [], parts = [], part_number = 1\<rparr> = (Some x, evs1, e1, ls1)"
      "capture_and_upload T R env key uid e = (Some x, evs1, e1)"
  | (FlushRaises) x evs1 e1 ls1 evs2 ls2 where
      "read_loop T R env key uid (stdout_script env) e
         \<lparr>buffer = [], parts = [], part_number = 1\<rparr> = (None, evs1, e1, ls1)"
      "final_flush env key uid e1 ls1 = (Some x, evs2, ls2)"
      "capture_and_upload T R env key uid e = (Some x, evs1 @ evs2, e1)"
  | (Completes) evs1 e1 ls1 evs2 ls2 where
      "read_loop T R env key uid (stdout_script env) e
         \<lparr>buffer = [], parts = [], part_number = 1\<rparr> = (None, evs1, e1, ls1)"
      "final_flush env key uid e1 ls1 = (None, evs2, ls2)"
      "capture_and_upload T R env key uid e =
         (case complete_reply env of Inl x \<Rightarrow> Some x | Inr u \<Rightarrow> None,
          evs1 @ evs2 @ [CompleteMultipartUpload (bucket_name e1) key uid (parts ls2)
                           (complete_reply env)],
          e1)"
proof -
  obtain r1 evs1 e1 ls1 where l: "read_loop T R env key uid (stdout_script env) e
         \<lparr>buffer = [], parts = [], part_number = 1\<rparr> = (r1, evs1, e1, ls1)"
    by (cases "read_loop T R env key uid (stdout_script env) e
         \<lparr>buffer = [], parts = [], part_number = 1\<rparr>") auto
  show ?thesis
  proof (cases r1)
    case (Some x)
    with l show ?thesis using LoopRaises[of x evs1 e1 ls1]
      by (simp add: capture_and_upload_def)
  next
    case None
    obtain r2 evs2 ls2 where f: "final_flush env key uid e1 ls1 = (r2, evs2, ls2)"
      by (cases "final_flush env key uid e1 ls1") auto
    show ?thesis
    proof (cases r2)
      case (Some x)
      with l None f show ?thesis using FlushRaises[of evs1 e1 ls1 x evs2 ls2]
        by (simp add: capture_and_upload_def)
    next
      case n2: None
      with l None f show ?thesis using Completes[of evs1 e1 ls1 evs2 ls2]
        by (simp add: capture_and_upload_def Let_def split: sum.splits)
    qed
  qed
qed

lemma capture_events:
  assumes "capture_and_upload T R env key uid e = (r, evs, e')" "ev \<in> set evs"
  shows "is_read ev \<or> is_upload_part ev \<or> ev = ScheduleUpdate False \<or> ev = AwaitCancelled
     \<or> is_complete ev"
proof (cases rule: capture_cases[of T R env key uid e])
  case (LoopRaises x evs1 e1 ls1)
  with assms read_loop_events[OF LoopRaises(1), of ev] show ?thesis by auto
next
  case (FlushRaises x evs1 e1 ls1 evs2 ls2)
  with assms read_loop_events[OF FlushRaises(1), of ev] final_flush_events[OF FlushRaises(2)]
  show ?thesis by auto
next
  case (Completes evs1 e1 ls1 evs2 ls2)
  with assms read_loop_events[OF Completes(1), of ev] final_flush_events[OF Completes(2)]
  show ?thesis by auto
qed

lemma capture_flag:
  assumes "capture_and_upload T R env key uid e = (r, evs, e')"
  shows "e' = e \<or> (is_on e \<and> e' = e\<lparr>is_on := False\<rparr>)"
proof (cases rule: capture_cases[of T R env key uid e])
  case (LoopRaises x evs1 e1 ls1)
  with assms read_loop_flag[OF LoopRaises(1)] show ?thesis by auto
next
  case (FlushRaises x evs1 e1 ls1 evs2 ls2)
  with assms read_loop_flag[OF FlushRaises(1)] show ?thesis by auto
next
  case (Completes evs1 e1 ls1 evs2 ls2)
  with assms read_loop_flag[OF Completes(1)] show ?thesis by auto
qed

lemma capture_failed:
  assumes run: "capture_and_upload T R env key uid e = (r, evs, e')"
    and failed: "\<exists>ev\<in>set evs. failed_storage_call ev"
  shows "\<exists>pre ev x. evs = pre @ [ev] \<and> failed_storage_call ev \<and> r = Some x
     \<and> (x = ClientError \<or> x = BotoCoreError) \<and> (\<forall>ev'\<in>set pre. \<not> failed_storage_call ev')"
proof (cases rule: capture_cases[of T R env key uid e])
  case (LoopRaises x evs1 e1 ls1)
  with run failed read_loop_failed[OF LoopRaises(1)] show ?thesis by auto
next
  case (FlushRaises x evs1 e1 ls1 evs2 ls2)
  have ok1: "\<forall>ev\<in>set evs1. \<not> failed_storage_call ev"
    by (rule read_loop_ok[OF FlushRaises(1)])
  from FlushRaises run failed ok1 have "\<exists>ev\<in>set evs2. failed_storage_call ev" by auto
  from final_flush_failed[OF FlushRaises(2) this]
  obtain ev y where "evs2 = [ev]" "failed_storage_call ev" "x = y"
    "y = ClientError \<or> y = BotoCoreError" by auto
  with FlushRaises run ok1 show ?thesis
    by (intro exI[of _ evs1] exI[of _ ev] exI[of _ x]) auto
next
  case (Completes evs1 e1 ls1 evs2 ls2)
  have ok1: "\<forall>ev\<in>set evs1. \<not> failed_storage_call ev"
    by (rule read_loop_ok[OF Completes(1)])
  have ok2: "\<forall>ev\<in>set evs2. \<not> failed_storage_call ev"
    using final_flush_failed[OF Completes(2)] by auto
  let ?c = "CompleteMultipartUpload (bucket_name e1) key uid (parts ls2) (complete_reply env)"
  from Completes run failed ok1 ok2 have fc: "failed_storage_call ?c" by auto
  then obtain x where x: "complete_reply env = Inl x" "x = ClientError \<or> x = BotoCoreError"
    by (cases "complete_reply env") auto
  with Completes run ok1 ok2 fc show ?thesis
    by (intro exI[of _ "evs1 @ evs2"] exI[of _ ?c] exI[of _ x]) auto
qed

section \<open>One segment\<close>

lemma read_pass_on_upload:
  "read_pass T R env key uid e ls reply = (pe, evs, ls') \<Longrightarrow> list_all (on_upload key uid) evs"
  by (cases rule: read_pass_cases[of reply T R env key uid e ls]) auto

lemma read_loop_on_upload:
  assumes run: "read_loop T R env key uid steps e ls = (r, evs, e', ls')"
  shows "list_all (on_upload key uid) evs"
proof (cases "is_on e")
  case False
  with run show ?thesis by (simp add: read_loop_off)
next
  case True
  have "case read_loop T R env key uid steps e ls of
          (r, evs, e', ls') \<Rightarrow> list_all (on_upload key uid) evs"
    using True
    by (rule read_loop_on_induct[where P = "\<lambda>steps ls res. case res of
          (r, evs, e', ls') \<Rightarrow> list_all (on_upload key uid) evs"])
       (auto dest: read_pass_on_upload)
  with run show ?thesis by auto
qed

lemma final_flush_on_upload:
  "final_flush env key uid e ls = (r, evs, ls') \<Longrightarrow> list_all (on_upload key uid) evs"
  by (auto simp: final_flush_def Let_def split: if_splits sum.splits)

lemma capture_on_upload:
  assumes "capture_and_upload T R env key uid e = (r, evs, e')"
  shows "list_all (on_upload key uid) evs"
proof (cases rule: capture_cases[of T R env key uid e])
  case (LoopRaises x evs1 e1 ls1)
  with assms read_loop_on_upload[OF LoopRaises(1)] show ?thesis by auto
next
  case (FlushRaises x evs1 e1 ls1 evs2 ls2)
  with assms read_loop_on_upload[OF FlushRaises(1)] final_flush_on_upload[OF FlushRaises(2)]
  show ?thesis by auto
next
  case (Completes evs1 e1 ls1 evs2 ls2)
  with assms read_loop_on_upload[OF Completes(1)] final_flush_on_upload[OF Completes(2)]
  show ?thesis by auto
qed

lemma except_clauses_cases:
  obtains
    (NoException) "r = None" "except_clauses env key uid e r = (None, [], e)"
  | (Storage) x where "r = Some x" "x = ClientError \<or> x = BotoCoreError"
      "except_clauses env key uid e r =
         (case abort_reply env of Inl y \<Rightarrow> Some y | Inr u \<Rightarrow> None,
          [AbortMultipartUpload (bucket_name e) key uid (abort_reply env)], e)"
  | (Stream) x where "r = Some x" "x = OSError \<or> x = ValueError \<or> x = SubprocessError"
      "except_clauses env key uid e r =
         (None, fst (stop_stream_to_s3 e), snd (stop_stream_to_s3 e))"
  | (Uncaught) x where "r = Some x"
      "x \<notin> {ClientError, BotoCoreError, OSError, ValueError, SubprocessError}"
      "except_clauses env key uid e r = (Some x, [], e)"
proof (cases r)
  case None
  then show ?thesis using NoException by (simp add: except_clauses_def)
next
  case (Some x)
  consider "x = ClientError \<or> x = BotoCoreError"
    | "x = OSError \<or> x = ValueError \<or> x = SubprocessError"
    | "x \<notin> {ClientError, BotoCoreError, OSError, ValueError, SubprocessError}"
    by auto
  then show ?thesis
  proof cases
    case 1
    with Some show ?thesis using Storage[of x]
      by (auto simp: except_clauses_def Let_def split: sum.splits)
  next
    case 2
    with Some show ?thesis using Stream[of x]
      by (auto simp: except_clauses_def Let_def split: prod.splits)
  next
    case 3
    with Some show ?thesis using Uncaught[of x]
      by (auto simp: except_clauses_def)
  qed
qed

lemma segment_create_fails:
  "create_reply env = Inl x \<Longrightarrow>
     segment T R env e proc =
       (Some x, [CreateMultipartUpload (bucket_name e)
                   (now_strftime env @ stream_name e @ ''.mp4'') (Inl x)], e, proc)"
  by (simp add: segment_def Let_def)

lemma segment_popen_fails:
  "create_reply env = Inr uid \<Longrightarrow> popen_reply env = Inl x \<Longrightarrow>
     segment T R env e proc =
       (case except_clauses env (now_strftime env @ stream_name e @ ''.mp4'') uid e (Some x) of
          (r2, evs2, e2) \<Rightarrow>
            (fst (finally_clause proc r2),
             CreateMultipartUpload (bucket_name e)
                (now_strftime env @ stream_name e @ ''.mp4'') (Inr uid)
             # Popen (split_blank (ffmpeg_command e)) (Inl x)
             # evs2 @ snd (finally_clause proc r2), e2, proc))"
  by (simp add: segment_def try_block_def Let_def split: prod.splits)

lemma segment_launched:
  "create_reply env = Inr uid \<Longrightarrow> popen_reply env = Inr p \<Longrightarrow>
     segment T R env e proc =
       (case capture_and_upload T R env (now_strftime env @ stream_name e @ ''.mp4'') uid e of
          (r0, evs0, e0) \<Rightarrow>
            (case except_clauses env (now_strftime env @ stream_name e @ ''.mp4'') uid e0 r0 of
               (r2, evs2, e2) \<Rightarrow>
                 (r2,
                  CreateMultipartUpload (bucket_name e)
                    (now_strftime env @ stream_name e @ ''.mp4'') (Inr uid)
                  # Popen (split_blank (ffmpeg_command e)) (Inr p)
                  # evs0 @ [PopenExit p] @ evs2 @ [Terminate p, Wait p], e2, Some p)))"
  by (simp add: segment_def try_block_def finally_clause_def Let_def split: prod.splits)

lemma except_clauses_events:
  assumes "except_clauses env key uid e r = (r2, evs2, e2)" "ev \<in> set evs2"
  shows "is_abort ev \<or> ev = ScheduleUpdate False"
proof (cases rule: except_clauses_cases[of r env key uid e])
  case (Stream x)
  with assms show ?thesis by (auto simp: stop_stream_to_s3_def split: if_splits)
qed (use assms in auto)

lemma finally_clause_events:
  "ev \<in> set (snd (finally_clause proc r)) \<Longrightarrow> (\<exists>q. ev = Terminate q \<or> ev = Wait q)"
  by (auto simp: finally_clause_def split: option.splits)

lemma segment_reaps:
  assumes run: "segment T R env e proc = (r, evs, e', proc')"
    and launched: "Popen argv (Inr p) \<in> set evs"
  shows "\<exists>uid mid. evs = CreateMultipartUpload (bucket_name e)
                (now_strftime env @ stream_name e @ ''.mp4'') (Inr uid)
              # Popen argv (Inr p) # mid @ [Terminate p, Wait p]
     \<and> list_all (\<lambda>ev. \<not> is_launch ev) mid \<and> PopenExit p \<in> set mid \<and> proc' = Some p"
proof (cases "create_reply env")
  case (Inl x)
  with run launched show ?thesis by (auto simp: segment_create_fails)
next
  case (Inr uid)
  let ?key = "now_strftime env @ stream_name e @ ''.mp4''"
  show ?thesis
  proof (cases "popen_reply env")
    case (Inl x)
    obtain r2 evs2 e2 where ex: "except_clauses env ?key uid e (Some x) = (r2, evs2, e2)"
      by (cases "except_clauses env ?key uid e (Some x)") auto
    from run Inr Inl ex have evs: "evs = CreateMultipartUpload (bucket_name e) ?key (Inr uid)
             # Popen (split_blank (ffmpeg_command e)) (Inl x)
             # evs2 @ snd (finally_clause proc r2)"
      by (auto simp: segment_popen_fails)
    from launched evs have "Popen argv (Inr p) \<in> set evs2
        \<or> Popen argv (Inr p) \<in> set (snd (finally_clause proc r2))" by auto
    then show ?thesis
      using except_clauses_events[OF ex, of "Popen argv (Inr p)"]
        finally_clause_events[of "Popen argv (Inr p)" proc r2] by auto
  next
    case p': (Inr p')
    obtain r0 evs0 e0 where cap: "capture_and_upload T R env ?key uid e = (r0, evs0, e0)"
      by (cases "capture_and_upload T R env ?key uid e") auto
    obtain r2 evs2 e2 where ex: "except_clauses env ?key uid e0 r0 = (r2, evs2, e2)"
      by (cases "except_clauses env ?key uid e0 r0") auto
    from run Inr p' cap ex have evs: "evs = CreateMultipartUpload (bucket_name e) ?key (Inr uid)
             # Popen (split_blank (ffmpeg_command e)) (Inr p')
             # evs0 @ [PopenExit p'] @ evs2 @ [Terminate p', Wait p']"
      and proc': "proc' = Some p'"
      by (auto simp: segment_launched)
    have n0: "\<forall>ev\<in>set evs0. \<not> is_launch ev"
    proof
      fix ev assume "ev \<in> set evs0"
      from capture_events[OF cap this] show "\<not> is_launch ev" by (cases ev) auto
    qed
    have n2: "\<forall>ev\<in>set evs2. \<not> is_launch ev"
    proof
      fix ev assume "ev \<in> set evs2"
      from except_clauses_events[OF ex this] show "\<not> is_launch ev" by (cases ev) auto
    qed
    from launched evs n0 n2 have eq: "argv = split_blank (ffmpeg_command e)" "p = p'"
      by auto
    show ?thesis
      using evs proc' eq n0 n2
      by (intro exI[of _ uid] exI[of _ "evs0 @ [PopenExit p'] @ evs2"])
         (auto simp: list_all_iff)
  qed
qed

lemma segment_storage_failure:
  assumes run: "segment T R env e proc = (r, evs, e', proc')"
    and failed: "\<exists>ev\<in>set evs. failed_storage_call ev"
  shows "\<exists>pre ev uid p.
       create_reply env = Inr uid \<and> popen_reply env = Inr p
     \<and> evs = pre @ [ev, PopenExit p,
                     AbortMultipartUpload (bucket_name e)
                       (now_strftime env @ stream_name e @ ''.mp4'') uid (abort_reply env),
                     Terminate p, Wait p]
     \<and> failed_storage_call ev
     \<and> list_all (\<lambda>ev'. \<not> failed_storage_call ev' \<and> \<not> is_abort ev') pre
     \<and> list_all (on_upload (now_strftime env @ stream_name e @ ''.mp4'') uid) evs
     \<and> r = (case abort_reply env of Inl y \<Rightarrow> Some y | Inr u \<Rightarrow> None)
     \<and> (e' = e \<or> (is_on e \<and> e' = e\<lparr>is_on := False\<rparr>))
     \<and> (ExternalStop \<notin> set (stdout_script env) \<longrightarrow>
          ExternalCancel \<notin> set (stdout_script env) \<longrightarrow> e' = e)"
proof (cases "create_reply env")
  case (Inl x)
  with run failed show ?thesis by (auto simp: segment_create_fails)
next
  case (Inr uid)
  let ?key = "now_strftime env @ stream_name e @ ''.mp4''"
  show ?thesis
  proof (cases "popen_reply env")
    case (Inl x)
    obtain r2 evs2 e2 where ex: "except_clauses env ?key uid e (Some x) = (r2, evs2, e2)"
      by (cases "except_clauses env ?key uid e (Some x)") auto
    from run Inr Inl ex have evs: "evs = CreateMultipartUpload (bucket_name e) ?key (Inr uid)
             # Popen (split_blank (ffmpeg_command e)) (Inl x)
             # evs2 @ snd (finally_clause proc r2)"
      by (auto simp: segment_popen_fails)
    from failed obtain ev where ev: "ev \<in> set evs" "failed_storage_call ev" by blast
    from ev evs have "ev \<in> set evs2 \<or> ev \<in> set (snd (finally_clause proc r2))" by auto
    then show ?thesis
      using except_clauses_events[OF ex, of ev] finally_clause_events[of ev proc r2] ev(2)
      by (cases ev) auto
  next
    case p: (Inr p)
    obtain r0 evs0 e0 where cap: "capture_and_upload T R env ?key uid e = (r0, evs0, e0)"
      by (cases "capture_and_upload T R env ?key uid e") auto
    obtain r2 evs2 e2 where ex: "except_clauses env ?key uid e0 r0 = (r2, evs2, e2)"
      by (cases "except_clauses env ?key uid e0 r0") auto
    from run Inr p cap ex have evs: "evs = CreateMultipartUpload (bucket_name e) ?key (Inr uid)
             # Popen (split_blank (ffmpeg_command e)) (Inr p)
             # evs0 @ [PopenExit p] @ evs2 @ [Terminate p, Wait p]"
      and r: "r = r2" and e': "e' = e2"
      by (auto simp: segment_launched)
    have n2: "\<forall>ev\<in>set evs2. \<not> failed_storage_call ev"
    proof
      fix ev assume "ev \<in> set evs2"
      from except_clauses_events[OF ex this] show "\<not> failed_storage_call ev" by (cases ev) auto
    qed
    from failed evs n2 have "\<exists>ev\<in>set evs0. failed_storage_call ev" by auto
    from capture_failed[OF cap this]
    obtain pre0 ev x where c: "evs0 = pre0 @ [ev]" "failed_storage_call ev" "r0 = Some x"
      "x = ClientError \<or> x = BotoCoreError" "\<forall>ev'\<in>set pre0. \<not> failed_storage_call ev'"
      by blast
    have flag: "e0 = e \<or> (is_on e \<and> e0 = e\<lparr>is_on := False\<rparr>)"
      by (rule capture_flag[OF cap])
    then have b: "bucket_name e0 = bucket_name e" by auto
    from ex c(3,4) have ex': "r2 = (case abort_reply env of Inl y \<Rightarrow> Some y | Inr u \<Rightarrow> None)"
      "evs2 = [AbortMultipartUpload (bucket_name e) ?key uid (abort_reply env)]" "e2 = e0"
      using b by (auto simp: except_clauses_def Let_def split: sum.splits)
    have na: "\<forall>ev'\<in>set pre0. \<not> is_abort ev'"
    proof
      fix ev' assume "ev' \<in> set pre0"
      then have "ev' \<in> set evs0" using c(1) by simp
      from capture_events[OF cap this] show "\<not> is_abort ev'" by (cases ev') auto
    qed
    have ou: "list_all (on_upload ?key uid) evs"
      using capture_on_upload[OF cap] evs ex'(2) by simp
    have ns: "ExternalStop \<notin> set (stdout_script env) \<longrightarrow>
          ExternalCancel \<notin> set (stdout_script env) \<longrightarrow> e0 = e"
    proof (intro impI)
      assume ns: "ExternalStop \<notin> set (stdout_script env)"
        and nc: "ExternalCancel \<notin> set (stdout_script env)"
      show "e0 = e"
      proof (cases rule: capture_cases[of T R env ?key uid e])
        case (LoopRaises x evs1 e1 ls1)
        with cap read_loop_no_stop[OF LoopRaises(1) ns nc] show ?thesis by simp
      next
        case (FlushRaises x evs1 e1 ls1 evs2 ls2)
        with cap read_loop_no_stop[OF FlushRaises(1) ns nc] show ?thesis by simp
      next
        case (Completes evs1 e1 ls1 evs2 ls2)
        with cap read_loop_no_stop[OF Completes(1) ns nc] show ?thesis by simp
      qed
    qed
    let ?pre = "CreateMultipartUpload (bucket_name e) ?key (Inr uid)
             # Popen (split_blank (ffmpeg_command e)) (Inr p) # pre0"
    have shape: "evs = ?pre @ [ev, PopenExit p,
                     AbortMultipartUpload (bucket_name e) ?key uid (abort_reply env),
                     Terminate p, Wait p]"
      using evs c(1) ex'(2) by simp
    have clean: "list_all (\<lambda>ev'. \<not> failed_storage_call ev' \<and> \<not> is_abort ev') ?pre"
      using c(5) na by (simp add: list_all_iff)
    show ?thesis
      using Inr p shape c(2) clean ou r e' ex'(1,3) flag ns
      by (intro exI[of _ ?pre] exI[of _ ev] exI[of _ uid] exI[of _ p]) simp
  qed
qed

lemma segment_cases:
  assumes run: "segment T R env e proc = (r, evs, e', proc')"
  obtains
    (CreateFails) x where "create_reply env = Inl x"
      "evs = [CreateMultipartUpload (bucket_name e)
                (now_strftime env @ stream_name e @ ''.mp4'') (Inl x)]"
      "r = Some x" "e' = e"
  | (PopenFails) uid x r2 evs2 where "create_reply env = Inr uid" "popen_reply env = Inl x"
      "except_clauses env (now_strftime env @ stream_name e @ ''.mp4'') uid e (Some x)
         = (r2, evs2, e')"
      "evs = CreateMultipartUpload (bucket_name e)
                (now_strftime env @ stream_name e @ ''.mp4'') (Inr uid)
             # Popen (split_blank (ffmpeg_command e)) (Inl x)
             # evs2 @ snd (finally_clause proc r2)"
      "r = fst (finally_clause proc r2)"
  | (Launched) uid p r0 evs0 e0 evs2 where "create_reply env = Inr uid" "popen_reply env = Inr p"
      "capture_and_upload T R env (now_strftime env @ stream_name e @ ''.mp4'') uid e
         = (r0, evs0, e0)"
      "except_clauses env (now_strftime env @ stream_name e @ ''.mp4'') uid e0 r0
         = (r, evs2, e')"
      "evs = CreateMultipartUpload (bucket_name e)
                (now_strftime env @ stream_name e @ ''.mp4'') (Inr uid)
             # Popen (split_blank (ffmpeg_command e)) (Inr p)
             # evs0 @ [PopenExit p] @ evs2 @ [Terminate p, Wait p]"
proof (cases "create_reply env")
  case (Inl x)
  have "segment T R env e proc =
       (Some x, [CreateMultipartUpload (bucket_name e)
                   (now_strftime env @ stream_name e @ ''.mp4'') (Inl x)], e, proc)"
    by (rule segment_create_fails[OF Inl])
  from trans[OF run[symmetric] this] have f: "evs = [CreateMultipartUpload (bucket_name e)
                   (now_strftime env @ stream_name e @ ''.mp4'') (Inl x)]" "r = Some x" "e' = e"
    by auto
  show ?thesis by (rule CreateFails[OF Inl f])
next
  case (Inr uid)
  let ?key = "now_strftime env @ stream_name e @ ''.mp4''"
  show ?thesis
  proof (cases "popen_reply env")
    case (Inl x)
    obtain r2 evs2 e2 where ex: "except_clauses env ?key uid e (Some x) = (r2, evs2, e2)"
      by (cases "except_clauses env ?key uid e (Some x)") auto
    have "segment T R env e proc =
        (fst (finally_clause proc r2),
         CreateMultipartUpload (bucket_name e) ?key (Inr uid)
         # Popen (split_blank (ffmpeg_command e)) (Inl x)
         # evs2 @ snd (finally_clause proc r2), e2, proc)"
      using segment_popen_fails[OF Inr Inl, of T R e proc] ex by simp
    from trans[OF run[symmetric] this] have f: "r = fst (finally_clause proc r2)"
      "evs = CreateMultipartUpload (bucket_name e) ?key (Inr uid)
         # Popen (split_blank (ffmpeg_command e)) (Inl x)
         # evs2 @ snd (finally_clause proc r2)" "e2 = e'"
      by auto
    from ex f(3) have ex': "except_clauses env ?key uid e (Some x) = (r2, evs2, e')" by simp
    show ?thesis by (rule PopenFails[OF Inr Inl ex' f(2) f(1)])
  next
    case p: (Inr p)
    obtain r0 evs0 e0 where cap: "capture_and_upload T R env ?key uid e = (r0, evs0, e0)"
      by (cases "capture_and_upload T R env ?key uid e") auto
    obtain r2 evs2 e2 where ex: "except_clauses env ?key uid e0 r0 = (r2, evs2, e2)"
      by (cases "except_clauses env ?key uid e0 r0") auto
    have "segment T R env e proc =
        (r2,
         CreateMultipartUpload (bucket_name e) ?key (Inr uid)
         # Popen (split_blank (ffmpeg_command e)) (Inr p)
         # evs0 @ [PopenExit p] @ evs2 @ [Terminate p, Wait p], e2, Some p)"
      using segment_launched[OF Inr p, of T R e proc] cap ex by simp
    from trans[OF run[symmetric] this] have f: "r2 = r"
      "evs = CreateMultipartUpload (bucket_name e) ?key (Inr uid)
         # Popen (split_blank (ffmpeg_command e)) (Inr p)
         # evs0 @ [PopenExit p] @ evs2 @ [Terminate p, Wait p]" "e2 = e'"
      by auto
    from ex f(1,3) have ex': "except_clauses env ?key uid e0 r0 = (r, evs2, e')" by simp
    show ?thesis by (rule Launched[OF Inr p cap ex' f(2)])
  qed
qed

section \<open>The outer loop\<close>

lemma segment_first_event:
  assumes "segment T R env e proc = (r, evs, e', proc')"
  shows "\<exists>rest. evs = CreateMultipartUpload (bucket_name e)
           (now_strftime env @ stream_name e @ ''.mp4'') (create_reply env) # rest"
proof (cases "create_reply env")
  case (Inl x)
  with assms show ?thesis by (auto simp: segment_create_fails)
next
  case (Inr uid)
  show ?thesis
  proof (cases "popen_reply env")
    case (Inl x)
    with assms Inr show ?thesis by (auto simp: segment_popen_fails split: prod.splits)
  next
    case p: (Inr p)
    with assms Inr show ?thesis by (auto simp: segment_launched split: prod.splits)
  qed
qed

lemma upload_loop_off: "\<not> is_on e \<Longrightarrow> upload_loop T R world e proc = (Returned, [], e)"
proof (induction world)
  case Nil
  then show ?case by simp
next
  case (Cons w world)
  then show ?case by (cases w) (simp_all add: stop_idle)
qed

lemma upload_loop_next:
  assumes "is_on e" "segment T R env e proc = (None, evs, e1, proc1)"
  shows "upload_loop T R (Segment env # world) e proc =
           (fst (upload_loop T R world e1 proc1),
            evs @ fst (snd (upload_loop T R world e1 proc1)),
            snd (snd (upload_loop T R world e1 proc1)))"
  using assms by (simp split: prod.splits)

lemma upload_loop_raises:
  assumes "is_on e" "segment T R env e proc = (Some x, evs, e1, proc1)"
  shows "upload_loop T R (Segment env # world) e proc = (Raised x, evs, e1)"
  using assms by simp

lemma segment_events_not_on:
  assumes run: "segment T R env e proc = (r, evs, e', proc')"
  shows "ScheduleUpdate True \<notin> set evs"
proof (cases "create_reply env")
  case (Inl x)
  with run show ?thesis by (auto simp: segment_create_fails)
next
  case (Inr uid)
  let ?key = "now_strftime env @ stream_name e @ ''.mp4''"
  show ?thesis
  proof (cases "popen_reply env")
    case (Inl x)
    obtain r2 evs2 e2 where ex: "except_clauses env ?key uid e (Some x) = (r2, evs2, e2)"
      by (cases "except_clauses env ?key uid e (Some x)") auto
    from run Inr Inl ex have evs: "evs = CreateMultipartUpload (bucket_name e) ?key (Inr uid)
             # Popen (split_blank (ffmpeg_command e)) (Inl x)
             # evs2 @ snd (finally_clause proc r2)"
      by (auto simp: segment_popen_fails)
    show ?thesis
    proof
      assume "ScheduleUpdate True \<in> set evs"
      with evs have "ScheduleUpdate True \<in> set evs2
          \<or> ScheduleUpdate True \<in> set (snd (finally_clause proc r2))" by auto
      then show False
        using except_clauses_events[OF ex, of "ScheduleUpdate True"]
          finally_clause_events[of "ScheduleUpdate True" proc r2] by auto
    qed
  next
    case p: (Inr p)
    obtain r0 evs0 e0 where cap: "capture_and_upload T R env ?key uid e = (r0, evs0, e0)"
      by (cases "capture_and_upload T R env ?key uid e") auto
    obtain r2 evs2 e2 where ex: "except_clauses env ?key uid e0 r0 = (r2, evs2, e2)"
      by (cases "except_clauses env ?key uid e0 r0") auto
    from run Inr p cap ex have evs: "evs = CreateMultipartUpload (bucket_name e) ?key (Inr uid)
             # Popen (split_blank (ffmpeg_command e)) (Inr p)
             # evs0 @ [PopenExit p] @ evs2 @ [Terminate p, Wait p]"
      by (auto simp: segment_launched)
    show ?thesis
    proof
      assume "ScheduleUpdate True \<in> set evs"
      with evs have "ScheduleUpdate True \<in> set evs0 \<or> ScheduleUpdate True \<in> set evs2"
        by auto
      then show False
        using except_clauses_events[OF ex, of "ScheduleUpdate True"]
          capture_events[OF cap, of "ScheduleUpdate True"] by auto
    qed
  qed
qed

lemma upload_loop_events_not_on:
  "upload_loop T R world e proc = (out, evs, e') \<Longrightarrow> ScheduleUpdate True \<notin> set evs"
proof (induction world arbitrary: e proc out evs e')
  case Nil
  then show ?case by (auto split: if_splits)
next
  case (Cons w world)
  show ?case
  proof (cases w)
    case StopRequested
    obtain out1 evs1 e1 where l: "upload_loop T R world (snd (stop_stream_to_s3 e)) proc
        = (out1, evs1, e1)"
      by (cases "upload_loop T R world (snd (stop_stream_to_s3 e)) proc") auto
    from Cons.IH[OF l] have "ScheduleUpdate True \<notin> set evs1" .
    with Cons.prems StopRequested l show ?thesis
      by (auto simp: stop_stream_to_s3_def split: if_splits prod.splits)
  next
    case CancelRequested
    with Cons.prems show ?thesis
      by (cases "is_on e") (auto simp: stop_on upload_loop_off)
  next
    case (Segment env)
    show ?thesis
    proof (cases "is_on e")
      case False
      with Cons.prems show ?thesis by (simp add: upload_loop_off)
    next
      case True
      obtain r evs0 e1 proc1 where s: "segment T R env e proc = (r, evs0, e1, proc1)"
        by (cases "segment T R env e proc") auto
      have n0: "ScheduleUpdate True \<notin> set evs0" by (rule segment_events_not_on[OF s])
      show ?thesis
      proof (cases r)
        case (Some x)
        with Cons.prems Segment True s n0 show ?thesis by auto
      next
        case None
        obtain out1 evs1 e2 where l: "upload_loop T R world e1 proc1 = (out1, evs1, e2)"
          by (cases "upload_loop T R world e1 proc1") auto
        from Cons.IH[OF l] have "ScheduleUpdate True \<notin> set evs1" .
        with Cons.prems Segment True s None l n0 show ?thesis by auto
      qed
    qed
  qed
qed

lemma upload_loop_ends_off:
  "upload_loop T R world e proc = (Returned, evs, e') \<Longrightarrow> \<not> is_on e'"
proof (induction world arbitrary: e proc evs e')
  case Nil
  then show ?case by (auto split: if_splits)
next
  case (Cons w world)
  show ?case
  proof (cases w)
    case StopRequested
    with Cons.prems have "snd (snd (upload_loop T R world (snd (stop_stream_to_s3 e)) proc)) = e'"
      by (auto split: prod.splits)
    then show ?thesis using stop_off[of e] by (simp add: upload_loop_off)
  next
    case CancelRequested
    with Cons.prems show ?thesis
      by (cases "is_on e") (auto simp: stop_on upload_loop_off)
  next
    case (Segment env)
    show ?thesis
    proof (cases "is_on e")
      case False
      with Cons.prems show ?thesis by (simp add: upload_loop_off)
    next
      case True
      obtain r evs0 e1 proc1 where s: "segment T R env e proc = (r, evs0, e1, proc1)"
        by (cases "segment T R env e proc") auto
      show ?thesis
      proof (cases r)
        case (Some x)
        with Cons.prems Segment True s show ?thesis by auto
      next
        case None
        obtain out1 evs1 e2 where l: "upload_loop T R world e1 proc1 = (out1, evs1, e2)"
          by (cases "upload_loop T R world e1 proc1") auto
        with Cons.prems Segment True s None have "out1 = Returned" "e2 = e'" by auto
        with Cons.IH[of e1 proc1 evs1 e2] l show ?thesis by simp
      qed
    qed
  qed
qed

section \<open>Cancellation of the awaiting task\<close>

lemma read_loop_cancelled:
  assumes run: "read_loop T R env key uid steps e ls = (r, evs, e', ls')"
    and c: "AwaitCancelled \<in> set evs"
  shows "\<exists>front. evs = front @ [AwaitCancelled, ScheduleUpdate False]
     \<and> list_all (\<lambda>ev. is_read ev \<or> is_upload_part ev) front
     \<and> r = None \<and> e' = e\<lparr>is_on := False\<rparr>"
proof (cases "is_on e")
  case False
  with run c show ?thesis by (simp add: read_loop_off)
next
  case True
  let ?Q = "\<lambda>res. case res of (r, evs, e', ls') \<Rightarrow>
     AwaitCancelled \<in> set evs \<longrightarrow>
     (\<exists>front. evs = front @ [AwaitCancelled, ScheduleUpdate False]
       \<and> list_all (\<lambda>ev. is_read ev \<or> is_upload_part ev) front
       \<and> r = None \<and> e' = e\<lparr>is_on := False\<rparr>)"
  have "?Q (read_loop T R env key uid steps e ls)"
    using True
  proof (rule read_loop_on_induct[where P = "\<lambda>steps ls res. ?Q res"])
    fix reply steps ls evs0 ls0
    assume p: "read_pass T R env key uid e ls reply = (Break, evs0, ls0)"
    show "?Q (None, evs0, e, ls0)"
      using read_pass_events[OF p, of AwaitCancelled] by auto
  next
    fix reply steps ls y evs0 ls0
    assume p: "read_pass T R env key uid e ls reply = (Raise y, evs0, ls0)"
    show "?Q (Some y, evs0, e, ls0)"
      using read_pass_events[OF p, of AwaitCancelled] by auto
  next
    fix reply steps ls evs0 ls0 r evs e' ls'
    assume p: "read_pass T R env key uid e ls reply = (Continue, evs0, ls0)"
      and ih: "?Q (r, evs, e', ls')"
    have k: "list_all (\<lambda>ev. is_read ev \<or> is_upload_part ev) evs0"
      using read_pass_events[OF p] by (auto simp: list_all_iff)
    have n: "AwaitCancelled \<notin> set evs0"
      using read_pass_events[OF p, of AwaitCancelled] by auto
    show "?Q (r, evs0 @ evs, e', ls')"
    proof (clarify)
      assume "AwaitCancelled \<in> set (evs0 @ evs)"
      with n have "AwaitCancelled \<in> set evs" by simp
      with ih obtain front where
        f: "evs = front @ [AwaitCancelled, ScheduleUpdate False]"
        "list_all (\<lambda>ev. is_read ev \<or> is_upload_part ev) front"
        "r = None" "e' = e\<lparr>is_on := False\<rparr>"
        by auto
      with k show "\<exists>front. evs0 @ evs = front @ [AwaitCancelled, ScheduleUpdate False]
         \<and> list_all (\<lambda>ev. is_read ev \<or> is_upload_part ev) front
         \<and> r = None \<and> e' = e\<lparr>is_on := False\<rparr>"
        by (intro exI[of _ "evs0 @ front"]) simp
    qed
  qed auto
  with run c show ?thesis by auto
qed

lemma upload_part_ends: "is_upload_part ev \<Longrightarrow> ends_segment ev"
  by (cases ev) auto

lemma capture_cancelled:
  assumes run: "capture_and_upload T R env key uid e = (r, evs, e')"
    and c: "AwaitCancelled \<in> set evs"
  shows "\<exists>front rest. evs = front @ [AwaitCancelled, ScheduleUpdate False] @ rest
     \<and> list_all (\<lambda>ev. is_read ev \<or> is_upload_part ev) front
     \<and> list_all ends_segment rest
     \<and> e' = e\<lparr>is_on := False\<rparr>"
proof (cases rule: capture_cases[of T R env key uid e])
  case (LoopRaises x evs1 e1 ls1)
  with run c read_loop_cancelled[OF LoopRaises(1)] show ?thesis by auto
next
  case (FlushRaises x evs1 e1 ls1 evs2 ls2)
  have k2: "list_all ends_segment evs2"
    using final_flush_events[OF FlushRaises(2)]
    by (auto simp: list_all_iff intro: upload_part_ends)
  have "AwaitCancelled \<notin> set evs2"
    using final_flush_events[OF FlushRaises(2)] by auto
  with FlushRaises(3) run c have "AwaitCancelled \<in> set evs1" by auto
  from read_loop_cancelled[OF FlushRaises(1) this] obtain front where
    f: "evs1 = front @ [AwaitCancelled, ScheduleUpdate False]"
    "list_all (\<lambda>ev. is_read ev \<or> is_upload_part ev) front" "e1 = e\<lparr>is_on := False\<rparr>"
    by auto
  with FlushRaises(3) run k2 show ?thesis
    by (intro exI[of _ front] exI[of _ evs2]) auto
next
  case (Completes evs1 e1 ls1 evs2 ls2)
  have k2: "list_all ends_segment evs2"
    using final_flush_events[OF Completes(2)]
    by (auto simp: list_all_iff intro: upload_part_ends)
  have "AwaitCancelled \<notin> set evs2"
    using final_flush_events[OF Completes(2)] by auto
  with Completes(3) run c have "AwaitCancelled \<in> set evs1" by auto
  from read_loop_cancelled[OF Completes(1) this] obtain front where
    f: "evs1 = front @ [AwaitCancelled, ScheduleUpdate False]"
    "list_all (\<lambda>ev. is_read ev \<or> is_upload_part ev) front" "e1 = e\<lparr>is_on := False\<rparr>"
    by auto
  with Completes(3) run k2 show ?thesis
    by (intro exI[of _ front]
          exI[of _ "evs2 @ [CompleteMultipartUpload (bucket_name e1) key uid (parts ls2)
                              (complete_reply env)]"]) auto
qed

lemma except_clauses_off:
  assumes off: "\<not> is_on e" and ex: "except_clauses env key uid e r = (r2, evs2, e2)"
  shows "list_all ends_segment evs2 \<and> e2 = e"
proof (cases rule: except_clauses_cases[of r env key uid e])
  case (Stream x)
  with ex off show ?thesis by (auto simp: stop_idle)
qed (use ex in auto)

lemma segment_cancelled:
  assumes run: "segment T R env e proc = (r, evs, e', proc')"
    and c: "AwaitCancelled \<in> set evs"
  shows "\<exists>front rest. evs = front @ [AwaitCancelled, ScheduleUpdate False] @ rest
     \<and> AwaitCancelled \<notin> set front \<and> list_all ends_segment rest \<and> \<not> is_on e'"
  using run
proof (cases rule: segment_cases)
  case (CreateFails x)
  with c show ?thesis by simp
next
  case (PopenFails uid x r2 evs2)
  from c PopenFails(4) have "AwaitCancelled \<in> set evs2
      \<or> AwaitCancelled \<in> set (snd (finally_clause proc r2))" by auto
  then show ?thesis
    using except_clauses_events[OF PopenFails(3), of AwaitCancelled]
      finally_clause_events[of AwaitCancelled proc r2] by auto
next
  case (Launched uid p r0 evs0 e0 evs2)
  have "AwaitCancelled \<notin> set evs2"
    using except_clauses_events[OF Launched(4), of AwaitCancelled] by auto
  with c Launched(5) have "AwaitCancelled \<in> set evs0" by auto
  from capture_cancelled[OF Launched(3) this] obtain front rest where
    f: "evs0 = front @ [AwaitCancelled, ScheduleUpdate False] @ rest"
    "list_all (\<lambda>ev. is_read ev \<or> is_upload_part ev) front"
    "list_all ends_segment rest" "e0 = e\<lparr>is_on := False\<rparr>"
    by blast
  from f(4) have off: "\<not> is_on e0" by simp
  from except_clauses_off[OF off Launched(4)]
  have x: "list_all ends_segment evs2" "e' = e0" by auto
  have n: "AwaitCancelled \<notin> set front"
    using f(2) by (auto simp: list_all_iff)
  let ?front = "CreateMultipartUpload (bucket_name e)
                  (now_strftime env @ stream_name e @ ''.mp4'') (Inr uid)
                # Popen (split_blank (ffmpeg_command e)) (Inr p) # front"
  let ?rest = "rest @ [PopenExit p] @ evs2 @ [Terminate p, Wait p]"
  have "evs = ?front @ [AwaitCancelled, ScheduleUpdate False] @ ?rest"
    unfolding Launched(5) f(1) by simp
  moreover have "AwaitCancelled \<notin> set ?front" using n by simp
  moreover have "list_all ends_segment ?rest" using f(3) x(1) by simp
  moreover have "\<not> is_on e'" using x(2) off by simp
  ultimately show ?thesis by blast
qed

lemma upload_loop_cancelled:
  "upload_loop T R world e proc = (out, evs, e') \<Longrightarrow> AwaitCancelled \<in> set evs \<Longrightarrow>
     \<exists>front rest. evs = front @ [AwaitCancelled, ScheduleUpdate False] @ rest
       \<and> AwaitCancelled \<notin> set front \<and> list_all ends_segment rest
       \<and> out \<noteq> Running \<and> \<not> is_on e'"
proof (induction world arbitrary: e proc out evs e')
  case Nil
  then show ?case by (auto split: if_splits)
next
  case (Cons w world)
  show ?case
  proof (cases w)
    case StopRequested
    with Cons.prems show ?thesis
      by (auto simp: upload_loop_off stop_off stop_stream_to_s3_def split: if_splits)
  next
    case CancelRequested
    show ?thesis
    proof (cases "is_on e")
      case False
      with Cons.prems CancelRequested show ?thesis by simp
    next
      case True
      with Cons.prems CancelRequested
      have "evs = [] @ [AwaitCancelled, ScheduleUpdate False] @ []" "out = Returned"
        "e' = e\<lparr>is_on := False\<rparr>"
        by (simp_all add: stop_on upload_loop_off)
      then show ?thesis by (intro exI[of _ "[]"]) simp
    qed
  next
    case (Segment env)
    show ?thesis
    proof (cases "is_on e")
      case False
      with Cons.prems show ?thesis by (simp add: upload_loop_off)
    next
      case True
      obtain r evs0 e1 proc1 where s: "segment T R env e proc = (r, evs0, e1, proc1)"
        by (cases "segment T R env e proc") auto
      show ?thesis
      proof (cases r)
        case (Some x)
        with Cons.prems Segment True s have "evs = evs0" "out = Raised x" "e' = e1" by auto
        with segment_cancelled[OF s] Cons.prems(2) show ?thesis by auto
      next
        case None
        obtain out1 evs1 e2 where l: "upload_loop T R world e1 proc1 = (out1, evs1, e2)"
          by (cases "upload_loop T R world e1 proc1") auto
        from Cons.prems Segment True s None l
        have evs: "evs = evs0 @ evs1" and out: "out = out1" and e': "e' = e2" by auto
        show ?thesis
        proof (cases "AwaitCancelled \<in> set evs0")
          case c0: True
          from segment_cancelled[OF s c0] obtain front rest where
            f: "evs0 = front @ [AwaitCancelled, ScheduleUpdate False] @ rest"
            "AwaitCancelled \<notin> set front" "list_all ends_segment rest" "\<not> is_on e1"
            by blast
          from f(4) l have "out1 = Returned" "evs1 = []" "e2 = e1"
            by (simp_all add: upload_loop_off)
          with evs out e' f show ?thesis by auto
        next
          case c0: False
          with evs Cons.prems(2) have "AwaitCancelled \<in> set evs1" by simp
          from Cons.IH[OF l this] obtain front rest where
            f: "evs1 = front @ [AwaitCancelled, ScheduleUpdate False] @ rest"
            "AwaitCancelled \<notin> set front" "list_all ends_segment rest"
            "out1 \<noteq> Running" "\<not> is_on e2"
            by blast
          have "evs = (evs0 @ front) @ [AwaitCancelled, ScheduleUpdate False] @ rest"
            using evs f(1) by simp
          moreover have "AwaitCancelled \<notin> set (evs0 @ front)" using c0 f(2) by simp
          ultimately show ?thesis using f(3,4,5) out e' by blast
        qed
      qed
    qed
  qed
qed

lemma takeWhile_before:
  "x \<notin> set front \<Longrightarrow> takeWhile (\<lambda>ev. ev \<noteq> x) (front @ x # rest) = front"
  by (induction front) auto

section \<open>Starting a session\<close>

lemma start_idle:
  assumes "\<not> is_on e" "upload_to_s3_sync world (e\<lparr>is_on := True\<rparr>) = (job, evs1, e1)"
    and "AwaitCancelled \<notin> set evs1"
  shows "start_stream_to_s3 world e =
    (case job of
       Running \<Rightarrow> (Running, ScheduleUpdate True # evs1, e1, [])
     | Returned \<Rightarrow>
         (Returned, ScheduleUpdate True # evs1 @ fst (stop_stream_to_s3 e1),
          snd (stop_stream_to_s3 e1), [])
     | Raised x \<Rightarrow>
         (if x \<in> {ClientError, BotoCoreError, SubprocessError, OSError,
                   RuntimeError, CancelledError}
          then Returned else Raised x,
          ScheduleUpdate True # evs1 @ fst (stop_stream_to_s3 e1),
          snd (stop_stream_to_s3 e1), []))"
  using assms by (cases job) (simp_all add: start_stream_to_s3_def Let_def split: prod.splits)

lemma start_cancelled:
  assumes idle: "\<not> is_on e"
    and job: "upload_to_s3_sync world (e\<lparr>is_on := True\<rparr>) = (job, evs1, e1)"
    and c: "AwaitCancelled \<in> set evs1"
  shows "\<exists>front rest. evs1 = front @ [AwaitCancelled, ScheduleUpdate False] @ rest
     \<and> AwaitCancelled \<notin> set front \<and> list_all ends_segment rest
     \<and> job \<noteq> Running \<and> \<not> is_on e1
     \<and> start_stream_to_s3 world e =
         (Returned, ScheduleUpdate True # front @ [AwaitCancelled, ScheduleUpdate False],
          e, rest)"
proof -
  from job have "upload_loop chunk_threshold read_size world (e\<lparr>is_on := True\<rparr>) None
      = (job, evs1, e1)" by (simp add: upload_to_s3_sync_def)
  from upload_loop_cancelled[OF this c] obtain front rest where
    f: "evs1 = front @ [AwaitCancelled, ScheduleUpdate False] @ rest"
    "AwaitCancelled \<notin> set front" "list_all ends_segment rest"
    "job \<noteq> Running" "\<not> is_on e1"
    by blast
  have t: "takeWhile (\<lambda>ev. ev \<noteq> AwaitCancelled) evs1 = front"
    unfolding f(1) using takeWhile_before[OF f(2)] by simp
  have same: "e\<lparr>is_on := True\<rparr>\<lparr>is_on := False\<rparr> = e" using idle by simp
  have "start_stream_to_s3 world e =
         (Returned, ScheduleUpdate True # front @ [AwaitCancelled, ScheduleUpdate False],
          e, rest)"
    using idle job c t same
    by (simp add: start_stream_to_s3_def Let_def stop_on f(1))
  with f show ?thesis by blast
qed

lemma stop_events_not_on: "ScheduleUpdate True \<notin> set (fst (stop_stream_to_s3 e))"
  by (simp add: stop_stream_to_s3_def)


lemma start_published_first:
  assumes idle: "\<not> is_on e" and run: "start_stream_to_s3 world e = (out, evs, e', later)"
  shows "\<exists>rest. evs = ScheduleUpdate True # rest \<and> ScheduleUpdate True \<notin> set rest
     \<and> ScheduleUpdate True \<notin> set later"
proof -
  obtain job evs1 e1 where j: "upload_to_s3_sync world (e\<lparr>is_on := True\<rparr>) = (job, evs1, e1)"
    by (cases "upload_to_s3_sync world (e\<lparr>is_on := True\<rparr>)") auto
  have n1: "ScheduleUpdate True \<notin> set evs1"
    using j by (auto simp: upload_to_s3_sync_def dest: upload_loop_events_not_on)
  show ?thesis
  proof (cases "AwaitCancelled \<in> set evs1")
    case True
    from start_cancelled[OF idle j True] run n1 show ?thesis by auto
  next
    case False
    show ?thesis
      using trans[OF run[symmetric] start_idle[OF idle j False]] n1 stop_events_not_on[of e1]
      by (cases job) (auto split: if_splits)
  qed
qed


section \<open>Validation of the configuration\<close>

lemma startswith_iff: "startswith s p = (\<exists>rest. s = p @ rest)"
proof
  assume "startswith s p"
  then have "s = p @ drop (length p) s"
    by (metis append_take_drop_id startswith_def)
  then show "\<exists>rest. s = p @ rest" ..
next
  assume "\<exists>rest. s = p @ rest"
  then show "startswith s p" by (auto simp: startswith_def)
qed

lemma validate_streams_ok:
  "(validate_streams streams = Inr ()) = list_all stream_accepted streams"
  by (induction streams)
     (auto simp: stream_accepted_def accepted_url_def split: option.splits)

lemma validate_streams_rejects:
  "list_all has_url streams \<Longrightarrow> \<not> list_all stream_accepted streams \<Longrightarrow>
     validate_streams streams = Inl InvalidStreamURL"
  by (induction streams)
     (auto simp: stream_accepted_def accepted_url_def has_url_def split: option.splits)

section \<open>A stop during the read loop\<close>

lemma read_pass_data_events:
  assumes "data_step (ReadReply reply)" "\<forall>n. \<exists>tag. upload_part_reply env n = Inr tag"
  shows "\<exists>evs ls'. read_pass T R env key uid e ls reply = (Continue, evs, ls')
     \<and> list_all (\<lambda>ev. is_read ev \<or> is_upload_part ev) evs
     \<and> length (filter is_read evs) = 1
     \<and> part_bodies evs = acked_bodies evs"
proof (cases rule: read_pass_cases[of reply T R env key uid e ls])
  case (ReadFails x)
  with assms show ?thesis by simp
next
  case Eof
  with assms show ?thesis by simp
next
  case (Buffered c)
  with assms show ?thesis by simp
next
  case (PartFails c x)
  with assms(2) show ?thesis by (metis sum.distinct(1))
next
  case (Flushed c tag)
  with assms show ?thesis by simp
qed

lemma read_loop_data_prefix:
  assumes on: "is_on e"
    and acks: "\<forall>n. \<exists>tag. upload_part_reply env n = Inr tag"
  shows "(\<forall>s\<in>set pre. data_step s) \<longrightarrow>
     (\<exists>evs0 ls0.
        (\<forall>rest. read_loop T R env key uid (pre @ rest) e ls =
                  (fst (read_loop T R env key uid rest e ls0),
                   evs0 @ fst (snd (read_loop T R env key uid rest e ls0)),
                   snd (snd (read_loop T R env key uid rest e ls0))))
      \<and> list_all (\<lambda>ev. is_read ev \<or> is_upload_part ev) evs0
      \<and> length (filter is_read evs0) = length pre
      \<and> part_bodies evs0 = acked_bodies evs0
      \<and> concat (acked_bodies evs0) @ buffer ls0 = buffer ls @ concat (map step_data pre))"
proof (induction pre arbitrary: ls)
  case Nil
  show ?case
    by (intro impI exI[of _ "[]"] exI[of _ ls]) simp
next
  case (Cons s pre)
  show ?case
  proof (intro impI)
    assume d: "\<forall>s\<in>set (s # pre). data_step s"
    from d obtain reply where s: "s = ReadReply reply" by (cases s) auto
    from d s have ds: "data_step (ReadReply reply)" by simp
    from read_pass_data_events[OF ds acks, of T R key uid e ls]
    obtain evs1 ls1 where p: "read_pass T R env key uid e ls reply = (Continue, evs1, ls1)"
      and p1: "list_all (\<lambda>ev. is_read ev \<or> is_upload_part ev) evs1"
      and p2: "length (filter is_read evs1) = 1"
      and p3: "part_bodies evs1 = acked_bodies evs1"
      by blast
    have p4: "concat (acked_bodies evs1) @ buffer ls1 = buffer ls @ step_data s"
    proof -
      have "read_chunks evs1 = [step_data s]"
        using p ds s by (cases rule: read_pass_cases[of reply T R env key uid e ls]) auto
      with read_pass_conserve[OF p] show ?thesis by simp
    qed
    from Cons.IH[of ls1] d
    obtain evs0 ls0 where
      i0: "\<forall>rest. read_loop T R env key uid (pre @ rest) e ls1 =
                  (fst (read_loop T R env key uid rest e ls0),
                   evs0 @ fst (snd (read_loop T R env key uid rest e ls0)),
                   snd (snd (read_loop T R env key uid rest e ls0)))"
      and i1: "list_all (\<lambda>ev. is_read ev \<or> is_upload_part ev) evs0"
      and i2: "length (filter is_read evs0) = length pre"
      and i3: "part_bodies evs0 = acked_bodies evs0"
      and i4: "concat (acked_bodies evs0) @ buffer ls0 = buffer ls1 @ concat (map step_data pre)"
      by auto
    have run: "\<forall>rest. read_loop T R env key uid ((s # pre) @ rest) e ls =
                  (fst (read_loop T R env key uid rest e ls0),
                   (evs1 @ evs0) @ fst (snd (read_loop T R env key uid rest e ls0)),
                   snd (snd (read_loop T R env key uid rest e ls0)))"
      using on s p i0 by (simp split: prod.splits)
    have c: "concat (acked_bodies (evs1 @ evs0)) @ buffer ls0
               = buffer ls @ concat (map step_data (s # pre))"
    proof -
      have "concat (acked_bodies (evs1 @ evs0)) @ buffer ls0
              = concat (acked_bodies evs1) @ (concat (acked_bodies evs0) @ buffer ls0)"
        by (simp add: acked_bodies_append)
      also have "\<dots> = (concat (acked_bodies evs1) @ buffer ls1) @ concat (map step_data pre)"
        using i4 by simp
      also have "\<dots> = buffer ls @ concat (map step_data (s # pre))"
        using p4 by simp
      finally show ?thesis .
    qed
    show "\<exists>evs0 ls0.
        (\<forall>rest. read_loop T R env key uid ((s # pre) @ rest) e ls =
                  (fst (read_loop T R env key uid rest e ls0),
                   evs0 @ fst (snd (read_loop T R env key uid rest e ls0)),
                   snd (snd (read_loop T R env key uid rest e ls0))))
      \<and> list_all (\<lambda>ev. is_read ev \<or> is_upload_part ev) evs0
      \<and> length (filter is_read evs0) = length (s # pre)
      \<and> part_bodies evs0 = acked_bodies evs0
      \<and> concat (acked_bodies evs0) @ buffer ls0 = buffer ls @ concat (map step_data (s # pre))"
      using run p1 p2 p3 i1 i2 i3 c
      by (intro exI[of _ "evs1 @ evs0"] exI[of _ ls0])
         (simp add: part_bodies_append acked_bodies_append)
  qed
qed

lemma stopped_segment_run:
  assumes on: "is_on e"
    and create: "create_reply env = Inr uid" and popen: "popen_reply env = Inr p"
    and script: "stdout_script env = pre @ ExternalStop # post"
    and data: "\<forall>s\<in>set pre. data_step s"
    and acks: "\<forall>n. \<exists>tag. upload_part_reply env n = Inr tag"
    and complete: "complete_reply env = Inr ()"
  shows "\<exists>before flush ps.
       segment T R env e proc
         = (None,
            CreateMultipartUpload (bucket_name e)
                (now_strftime env @ stream_name e @ ''.mp4'') (Inr uid)
            # Popen (split_blank (ffmpeg_command e)) (Inr p)
            # before @ [ScheduleUpdate False] @ flush
            @ [CompleteMultipartUpload (bucket_name e)
                 (now_strftime env @ stream_name e @ ''.mp4'') uid ps (Inr ()),
               PopenExit p, Terminate p, Wait p],
            e\<lparr>is_on := False\<rparr>, Some p)
     \<and> list_all (\<lambda>ev. is_read ev \<or> is_upload_part ev) before
     \<and> length (filter is_read before) = length pre
     \<and> list_all is_upload_part flush \<and> length flush \<le> 1
     \<and> list_all (\<lambda>ev. \<not> failed_storage_call ev) (before @ flush)
     \<and> concat (part_bodies (before @ flush)) = concat (map step_data pre)"
proof -
  let ?key = "now_strftime env @ stream_name e @ ''.mp4''"
  let ?ls = "\<lparr>buffer = [], parts = [], part_number = 1\<rparr>"
  let ?off = "e\<lparr>is_on := False\<rparr>"
  from read_loop_data_prefix[OF on acks, of pre T R ?key uid ?ls] data
  obtain evs0 ls0 where
    i0: "\<forall>rest. read_loop T R env ?key uid (pre @ rest) e ?ls =
                  (fst (read_loop T R env ?key uid rest e ls0),
                   evs0 @ fst (snd (read_loop T R env ?key uid rest e ls0)),
                   snd (snd (read_loop T R env ?key uid rest e ls0)))"
    and i1: "list_all (\<lambda>ev. is_read ev \<or> is_upload_part ev) evs0"
    and i2: "length (filter is_read evs0) = length pre"
    and i3: "part_bodies evs0 = acked_bodies evs0"
    and i4: "concat (acked_bodies evs0) @ buffer ls0 = buffer ?ls @ concat (map step_data pre)"
    by auto
  have loop: "read_loop T R env ?key uid (stdout_script env) e ?ls
                = (None, evs0 @ [ScheduleUpdate False], ?off, ls0)"
    using i0 script read_loop_stop[OF on, of T R env ?key uid post ls0] by simp
  obtain tag where ack: "upload_part_reply env (part_number ls0) = Inr tag"
    using acks by blast
  define flush where "flush = (if buffer ls0 = [] then []
    else [UploadPart (bucket_name e) ?key (part_number ls0) uid (buffer ls0) (Inr tag)])"
  define ls2 where "ls2 = (if buffer ls0 = [] then ls0
    else ls0\<lparr>parts := parts ls0 @ [(part_number ls0, tag)]\<rparr>)"
  have ff: "final_flush env ?key uid ?off ls0 = (None, flush, ls2)"
    using ack by (simp add: final_flush_def flush_def ls2_def)
  have cap: "capture_and_upload T R env ?key uid e
      = (None, evs0 @ [ScheduleUpdate False] @ flush
           @ [CompleteMultipartUpload (bucket_name e) ?key uid (parts ls2) (Inr ())], ?off)"
    using loop ff complete by (simp add: capture_and_upload_def)
  have seg: "segment T R env e proc
         = (None,
            CreateMultipartUpload (bucket_name e) ?key (Inr uid)
            # Popen (split_blank (ffmpeg_command e)) (Inr p)
            # evs0 @ [ScheduleUpdate False] @ flush
            @ [CompleteMultipartUpload (bucket_name e) ?key uid (parts ls2) (Inr ()),
               PopenExit p, Terminate p, Wait p],
            ?off, Some p)"
    using cap by (simp add: segment_launched[OF create popen] except_clauses_def)
  have f1: "list_all is_upload_part flush" "length flush \<le> 1"
    "list_all (\<lambda>ev. \<not> failed_storage_call ev) flush"
    "part_bodies flush = (if buffer ls0 = [] then [] else [buffer ls0])"
    by (simp_all add: flush_def)
  have ok0: "list_all (\<lambda>ev. \<not> failed_storage_call ev) evs0"
    using read_loop_ok[OF loop] by (simp add: list_all_iff)
  have bodies: "concat (part_bodies (evs0 @ flush)) = concat (map step_data pre)"
    using i3 i4 f1(4) by (cases "buffer ls0 = []") (simp_all add: part_bodies_append)
  show ?thesis
    using seg i1 i2 f1(1,2,3) ok0 bodies
    by (intro exI[of _ evs0] exI[of _ flush] exI[of _ "parts ls2"]) simp
qed

section \<open>Children and open uploads\<close>
































section \<open>The claims\<close>

text \<open>
  \<^bold>\<open>C1.\<close> What the code does after a failed \<open>upload_part\<close> or
  \<open>complete_multipart_upload\<close>: the handler aborts the upload and does not touch the
  on flag. So when the session is on, no stop arrives during the segment (from
  \<open>async_turn_off\<close> or from a cancellation of the awaiting task) and the abort
  succeeds, the segment ends without an exception with the session still on, and the
  outer loop goes on by itself: its next event is the \<open>create_multipart_upload\<close> of the
  next segment. No call of \<open>start\<close> is involved.
\<close>

theorem session_goes_on_after_abort:
  assumes on: "is_on e"
    and run: "segment T R env e proc = (r, evs, e', proc')"
    and failed: "\<exists>ev\<in>set evs. failed_storage_call ev"
    and abort: "abort_reply env = Inr ()"
    and nostop: "ExternalStop \<notin> set (stdout_script env)"
      "ExternalCancel \<notin> set (stdout_script env)"
  shows "r = None \<and> e' = e \<and> is_on e'
     \<and> (\<exists>out rest e''.
           upload_loop T R (Segment env # Segment env' # world) e proc
             = (out,
                evs @ CreateMultipartUpload (bucket_name e)
                        (now_strftime env' @ stream_name e @ ''.mp4'') (create_reply env')
                      # rest,
                e''))"
proof -
  from segment_storage_failure[OF run failed] abort nostop
  have r: "r = None" and e': "e' = e" by auto
  obtain r2 evs2 e2 proc2 where s2: "segment T R env' e proc' = (r2, evs2, e2, proc2)"
    by (cases "segment T R env' e proc'") auto
  from segment_first_event[OF s2] obtain rest where
    evs2: "evs2 = CreateMultipartUpload (bucket_name e)
             (now_strftime env' @ stream_name e @ ''.mp4'') (create_reply env') # rest"
    by blast
  have first: "upload_loop T R (Segment env # Segment env' # world) e proc =
           (fst (upload_loop T R (Segment env' # world) e proc'),
            evs @ fst (snd (upload_loop T R (Segment env' # world) e proc')),
            snd (snd (upload_loop T R (Segment env' # world) e proc')))"
    using upload_loop_next[OF on, of T R env proc evs e proc'] run r e' by simp
  have "\<exists>rest'. fst (snd (upload_loop T R (Segment env' # world) e proc')) = evs2 @ rest'"
  proof (cases r2)
    case None
    with upload_loop_next[OF on, of T R env' proc' evs2 e2 proc2 world] s2
    show ?thesis by simp
  next
    case (Some x)
    with upload_loop_raises[OF on, of T R env' proc' x evs2 e2 proc2 world] s2
    show ?thesis by simp
  qed
  then obtain rest' where
    "fst (snd (upload_loop T R (Segment env' # world) e proc')) = evs2 @ rest'" by blast
  with first evs2 r e' on show ?thesis by simp
qed


theorem session_goes_on_after_abort_witness:
  "is_on cam_on
   \<and> segment chunk_threshold read_size failing_store cam_on None
     = (None,
        [CreateMultipartUpload ''b'' ''2024/01/01/20240101000000_cam.mp4'' (Inr ''u1''),
         Popen [''ffmpeg'', ''-i'', ''rtsp://h/s''] (Inr 7),
         StdoutRead 1048576 (Inr [1, 2, 3]), StdoutRead 1048576 (Inr []),
         UploadPart ''b'' ''2024/01/01/20240101000000_cam.mp4'' 1 ''u1'' [1, 2, 3]
           (Inl ClientError),
         PopenExit 7,
         AbortMultipartUpload ''b'' ''2024/01/01/20240101000000_cam.mp4'' ''u1'' (Inr ()),
         Terminate 7, Wait 7],
        cam_on, Some 7)
   \<and> list_ex failed_storage_call
        [CreateMultipartUpload ''b'' ''2024/01/01/20240101000000_cam.mp4'' (Inr ''u1''),
         Popen [''ffmpeg'', ''-i'', ''rtsp://h/s''] (Inr 7),
         StdoutRead 1048576 (Inr [1, 2, 3]), StdoutRead 1048576 (Inr []),
         UploadPart ''b'' ''2024/01/01/20240101000000_cam.mp4'' 1 ''u1'' [1, 2, 3]
           (Inl ClientError),
         PopenExit 7,
         AbortMultipartUpload ''b'' ''2024/01/01/20240101000000_cam.mp4'' ''u1'' (Inr ()),
         Terminate 7, Wait 7]
   \<and> abort_reply failing_store = Inr ()
   \<and> ExternalStop \<notin> set (stdout_script failing_store)
   \<and> ExternalCancel \<notin> set (stdout_script failing_store)
   \<and> (\<exists>out rest e''.
         upload_loop chunk_threshold read_size [Segment failing_store, Segment silent_child]
            cam_on None
         = (out,
            [CreateMultipartUpload ''b'' ''2024/01/01/20240101000000_cam.mp4'' (Inr ''u1''),
             Popen [''ffmpeg'', ''-i'', ''rtsp://h/s''] (Inr 7),
             StdoutRead 1048576 (Inr [1, 2, 3]), StdoutRead 1048576 (Inr []),
             UploadPart ''b'' ''2024/01/01/20240101000000_cam.mp4'' 1 ''u1'' [1, 2, 3]
               (Inl ClientError),
             PopenExit 7,
             AbortMultipartUpload ''b'' ''2024/01/01/20240101000000_cam.mp4'' ''u1'' (Inr ()),
             Terminate 7, Wait 7]
            @ CreateMultipartUpload ''b'' ''2024/01/01/20240101001000_cam.mp4'' (Inr ''u2'')
              # rest,
            e''))"
proof -
  let ?evs = "[CreateMultipartUpload ''b'' ''2024/01/01/20240101000000_cam.mp4'' (Inr ''u1''),
         Popen [''ffmpeg'', ''-i'', ''rtsp://h/s''] (Inr 7),
         StdoutRead 1048576 (Inr [1, 2, 3]), StdoutRead 1048576 (Inr []),
         UploadPart ''b'' ''2024/01/01/20240101000000_cam.mp4'' 1 ''u1'' [1, 2, 3]
           (Inl ClientError),
         PopenExit 7,
         AbortMultipartUpload ''b'' ''2024/01/01/20240101000000_cam.mp4'' ''u1'' (Inr ()),
         Terminate 7, Wait 7]"
  have on: "is_on cam_on" by (simp add: cam_on_def)
  have run: "segment chunk_threshold read_size failing_store cam_on None
     = (None, ?evs, cam_on, Some 7)"
    by (simp add: run_defs)
  have f: "\<exists>ev\<in>set ?evs. failed_storage_call ev"
    by simp
  have a: "abort_reply failing_store = Inr ()"
    by (simp add: failing_store_def seg_env_def)
  have n: "ExternalStop \<notin> set (stdout_script failing_store)"
    "ExternalCancel \<notin> set (stdout_script failing_store)"
    by (simp_all add: failing_store_def seg_env_def)
  have names: "bucket_name cam_on = ''b''"
    "now_strftime silent_child @ stream_name cam_on @ ''.mp4''
       = ''2024/01/01/20240101001000_cam.mp4''"
    "create_reply silent_child = Inr ''u2''"
    by (simp_all add: cam_on_def cam_def seg_env_def silent_child_def)
  from session_goes_on_after_abort[OF on run f a n, of silent_child "[]"]
  have "\<exists>out rest e''.
         upload_loop chunk_threshold read_size [Segment failing_store, Segment silent_child]
            cam_on None
         = (out, ?evs
            @ CreateMultipartUpload ''b'' ''2024/01/01/20240101001000_cam.mp4'' (Inr ''u2'')
              # rest, e'')"
    unfolding names by blast
  moreover have "list_ex failed_storage_call ?evs" by simp
  ultimately show ?thesis using on run a n by blast
qed

theorem new_segment_after_failure_counterexample:
  "start_stream_to_s3 [Segment failing_store, Segment silent_child] cam
     = (Running,
        [ScheduleUpdate True,
         CreateMultipartUpload ''b'' ''2024/01/01/20240101000000_cam.mp4'' (Inr ''u1''),
         Popen [''ffmpeg'', ''-i'', ''rtsp://h/s''] (Inr 7),
         StdoutRead 1048576 (Inr [1, 2, 3]), StdoutRead 1048576 (Inr []),
         UploadPart ''b'' ''2024/01/01/20240101000000_cam.mp4'' 1 ''u1'' [1, 2, 3]
           (Inl ClientError),
         PopenExit 7,
         AbortMultipartUpload ''b'' ''2024/01/01/20240101000000_cam.mp4'' ''u1'' (Inr ()),
         Terminate 7, Wait 7,
         CreateMultipartUpload ''b'' ''2024/01/01/20240101001000_cam.mp4'' (Inr ''u2''),
         Popen [''ffmpeg'', ''-i'', ''rtsp://h/s''] (Inr 8),
         StdoutRead 1048576 (Inr []),
         CompleteMultipartUpload ''b'' ''2024/01/01/20240101001000_cam.mp4'' ''u2'' [] (Inr ()),
         PopenExit 8, Terminate 8, Wait 8],
        cam_on, [])"
  by (simp add: run_defs)




text \<open>
  \<^bold>\<open>C3.\<close> When \<open>start_stream_to_s3\<close> runs on a session that is off, its first event is
  the publication of the on state: the flag is set and \<open>schedule_update_ha_state\<close> is
  called before the recording job is handed to the executor, so before the upload is
  opened and before \<open>Popen\<close> is called. The on state is published once only: every
  later event, the launch of the child among them, comes after it, also what the job
  does after the return of a call whose task was cancelled.
\<close>

theorem on_published_before_launch:
  assumes "\<not> is_on e" and "start_stream_to_s3 world e = (out, evs, e', later)"
  shows "\<exists>rest. evs = ScheduleUpdate True # rest \<and> ScheduleUpdate True \<notin> set rest
     \<and> ScheduleUpdate True \<notin> set later"
  using assms by (rule start_published_first)

theorem on_published_before_launch_witness:
  "\<not> is_on cam
   \<and> start_stream_to_s3 [Segment stopped_segment] cam
     = (Returned,
        [ScheduleUpdate True,
         CreateMultipartUpload ''b'' ''2024/01/01/20240101000000_cam.mp4'' (Inr ''u1''),
         Popen [''ffmpeg'', ''-i'', ''rtsp://h/s''] (Inr 7),
         StdoutRead 1048576 (Inr [1, 2, 3]), ScheduleUpdate False,
         UploadPart ''b'' ''2024/01/01/20240101000000_cam.mp4'' 1 ''u1'' [1, 2, 3]
           (Inr ''tag''),
         CompleteMultipartUpload ''b'' ''2024/01/01/20240101000000_cam.mp4'' ''u1''
           [(1, ''tag'')] (Inr ()),
         PopenExit 7, Terminate 7, Wait 7],
        cam, [])
   \<and> (\<exists>rest.
        [ScheduleUpdate True,
         CreateMultipartUpload ''b'' ''2024/01/01/20240101000000_cam.mp4'' (Inr ''u1''),
         Popen [''ffmpeg'', ''-i'', ''rtsp://h/s''] (Inr 7),
         StdoutRead 1048576 (Inr [1, 2, 3]), ScheduleUpdate False,
         UploadPart ''b'' ''2024/01/01/20240101000000_cam.mp4'' 1 ''u1'' [1, 2, 3]
           (Inr ''tag''),
         CompleteMultipartUpload ''b'' ''2024/01/01/20240101000000_cam.mp4'' ''u1''
           [(1, ''tag'')] (Inr ()),
         PopenExit 7, Terminate 7, Wait 7] = ScheduleUpdate True # rest
        \<and> ScheduleUpdate True \<notin> set rest)"
proof -
  have idle: "\<not> is_on cam" by (simp add: cam_def)
  have run: "start_stream_to_s3 [Segment stopped_segment] cam
     = (Returned,
        [ScheduleUpdate True,
         CreateMultipartUpload ''b'' ''2024/01/01/20240101000000_cam.mp4'' (Inr ''u1''),
         Popen [''ffmpeg'', ''-i'', ''rtsp://h/s''] (Inr 7),
         StdoutRead 1048576 (Inr [1, 2, 3]), ScheduleUpdate False,
         UploadPart ''b'' ''2024/01/01/20240101000000_cam.mp4'' 1 ''u1'' [1, 2, 3]
           (Inr ''tag''),
         CompleteMultipartUpload ''b'' ''2024/01/01/20240101000000_cam.mp4'' ''u1''
           [(1, ''tag'')] (Inr ()),
         PopenExit 7, Terminate 7, Wait 7],
        cam, [])"
    by (simp add: run_defs)
  from on_published_before_launch[OF idle run] idle run show ?thesis by blast
qed

theorem on_without_capture_counterexample:
  "start_stream_to_s3 [Segment no_ffmpeg] cam
     = (Raised UnboundLocalError,
        [ScheduleUpdate True,
         CreateMultipartUpload ''b'' ''2024/01/01/20240101000000_cam.mp4'' (Inr ''u1''),
         Popen [''ffmpeg'', ''-i'', ''rtsp://h/s''] (Inl OSError),
         ScheduleUpdate False],
        cam, [])"
  by (simp add: run_defs)

text \<open>
  \<^bold>\<open>C4.\<close> The parts of one segment, for any threshold \<open>T > 0\<close>: the child writes
  \<open>N\<close> bytes in non-empty reads and ends, no stop arrives, every part is acknowledged.
  Then the bodies handed to \<open>upload_part\<close>, in order, are the input cut into pieces (so
  their sizes add up to \<open>N\<close>), every body but the last holds more than \<open>T\<close> bytes, and
  there are at most \<open>\<lceil>N / T\<rceil>\<close> of them. The number \<open>\<lceil>N / T\<rceil>\<close> itself is not
  reached in general: the buffer is flushed whole once it holds more than \<open>T\<close>.
\<close>

theorem parts_cover_input:
  assumes on: "is_on e"
    and data: "\<forall>s\<in>set (stdout_script env). data_step s"
    and acks: "\<forall>n. \<exists>tag. upload_part_reply env n = Inr tag"
    and T: "0 < T"
    and run: "capture_and_upload T R env key uid e = (r, evs, e')"
  shows "concat (part_bodies evs) = concat (map step_data (stdout_script env))
     \<and> sum_list (map length (part_bodies evs)) = sum_list (map step_size (stdout_script env))
     \<and> (\<forall>i. Suc i < length (part_bodies evs) \<longrightarrow> T < length (part_bodies evs ! i))
     \<and> length (part_bodies evs)
          \<le> (sum_list (map step_size (stdout_script env)) + T - 1) div T"
proof -
  from capture_bodies[OF on data acks run]
  obtain long rest where
    b: "part_bodies evs = long @ (if rest = [] then [] else [rest])"
    and long: "\<forall>b\<in>set long. T < length b"
    and c: "concat long @ rest = concat (map step_data (stdout_script env))"
    by blast
  have c1: "concat (part_bodies evs) = concat (map step_data (stdout_script env))"
    using b c by (cases "rest = []") auto
  have c2: "sum_list (map length (part_bodies evs)) = sum_list (map step_size (stdout_script env))"
  proof -
    have "sum_list (map length (part_bodies evs)) = length (concat (part_bodies evs))"
      by (simp add: length_concat)
    also have "\<dots> = length (concat (map step_data (stdout_script env)))"
      by (simp only: c1)
    also have "\<dots> = sum_list (map step_size (stdout_script env))"
      by (rule length_step_data)
    finally show ?thesis .
  qed
  have c3: "\<forall>i. Suc i < length (part_bodies evs) \<longrightarrow> T < length (part_bodies evs ! i)"
  proof (intro allI impI)
    fix i assume "Suc i < length (part_bodies evs)"
    with b have "i < length long" by (cases "rest = []") auto
    with b long show "T < length (part_bodies evs ! i)"
      by (simp add: nth_append)
  qed
  have "length (part_bodies evs) \<le> (length (concat long @ rest) + T - 1) div T"
    using count_bound[OF T long, of rest] b by simp
  then have c4: "length (part_bodies evs)
          \<le> (sum_list (map step_size (stdout_script env)) + T - 1) div T"
    by (simp only: c length_step_data)
  from c1 c2 c3 c4 show ?thesis by blast
qed


theorem parts_cover_input_witness:
  "is_on cam_on
   \<and> list_all data_step twelve_mib
   \<and> (\<forall>n. \<exists>tag. upload_part_reply (seg_env ''s'' ''u'' 7 twelve_mib) n = Inr tag)
   \<and> 0 < chunk_threshold
   \<and> concat (part_bodies (fst (snd (capture_and_upload chunk_threshold read_size
          (seg_env ''s'' ''u'' 7 twelve_mib) ''k'' ''u'' cam_on))))
        = concat (map step_data twelve_mib)
   \<and> sum_list (map length (part_bodies (fst (snd (capture_and_upload chunk_threshold
          read_size (seg_env ''s'' ''u'' 7 twelve_mib) ''k'' ''u'' cam_on)))))
        = sum_list (map step_size twelve_mib)
   \<and> length (part_bodies (fst (snd (capture_and_upload chunk_threshold read_size
          (seg_env ''s'' ''u'' 7 twelve_mib) ''k'' ''u'' cam_on))))
        \<le> (sum_list (map step_size twelve_mib) + chunk_threshold - 1) div chunk_threshold"
proof -
  let ?env = "seg_env ''s'' ''u'' 7 twelve_mib"
  have h1: "is_on cam_on" by (simp add: cam_on_def)
  have h2: "\<forall>s\<in>set (stdout_script ?env). data_step s"
    by (simp add: seg_env_def twelve_mib_def mib_not_empty)
  have h3: "\<forall>n. \<exists>tag. upload_part_reply ?env n = Inr tag"
    by (simp add: seg_env_def)
  have h4: "0 < chunk_threshold" by (simp add: chunk_threshold_def)
  obtain r evs e' where run:
    "capture_and_upload chunk_threshold read_size ?env ''k'' ''u'' cam_on = (r, evs, e')"
    by (cases "capture_and_upload chunk_threshold read_size ?env ''k'' ''u'' cam_on") auto
  have s: "stdout_script ?env = twelve_mib" by (simp add: seg_env_def)
  from parts_cover_input[OF h1 h2 h3 h4 run] h1 h2 h3 h4 show ?thesis
    by (simp only: run s fst_conv snd_conv list_all_iff) simp
qed

theorem parts_count_counterexample:
  "length (part_bodies (fst (snd (capture_and_upload chunk_threshold read_size
          (seg_env ''s'' ''u'' 7 twelve_mib) ''k'' ''u'' cam_on)))) = 2
   \<and> sum_list (map step_size twelve_mib) = 12582912
   \<and> (sum_list (map step_size twelve_mib) + chunk_threshold - 1) div chunk_threshold = 3"
  by (simp add: run_defs twelve_mib_def)

text \<open>
  \<^bold>\<open>C5.\<close> In a segment, if a call \<open>upload_part\<close> or \<open>complete_multipart_upload\<close> fails
  with a storage error (\<open>ClientError\<close> or \<open>BotoCoreError\<close>), then the upload was opened
  and the child launched, the failing call is the only failed one, and after it the
  segment does exactly this: leave the \<open>with\<close> block, call \<open>abort_multipart_upload\<close> on
  the key and upload id of this segment, terminate the child, wait for it. So the
  segment calls abort exactly once, after the failure and before it ends, and makes no
  call \<open>upload_part\<close> after the failure; every call to the store in the segment is on
  the segment's own upload. The segment ends without an exception when the abort
  succeeds, and with the abort's exception otherwise.
\<close>

theorem storage_failure_aborts_once:
  assumes "segment T R env e proc = (r, evs, e', proc')"
    and "\<exists>ev\<in>set evs. failed_storage_call ev"
  shows "\<exists>pre ev uid p.
       create_reply env = Inr uid \<and> popen_reply env = Inr p
     \<and> evs = pre @ [ev, PopenExit p,
                     AbortMultipartUpload (bucket_name e)
                       (now_strftime env @ stream_name e @ ''.mp4'') uid (abort_reply env),
                     Terminate p, Wait p]
     \<and> failed_storage_call ev
     \<and> list_all (\<lambda>ev'. \<not> failed_storage_call ev' \<and> \<not> is_abort ev') pre
     \<and> length (filter is_abort evs) = 1
     \<and> list_all (on_upload (now_strftime env @ stream_name e @ ''.mp4'') uid) evs
     \<and> r = (case abort_reply env of Inl y \<Rightarrow> Some y | Inr u \<Rightarrow> None)"
proof -
  from segment_storage_failure[OF assms]
  obtain pre ev uid p where
    a: "create_reply env = Inr uid" "popen_reply env = Inr p"
    and shape: "evs = pre @ [ev, PopenExit p,
                     AbortMultipartUpload (bucket_name e)
                       (now_strftime env @ stream_name e @ ''.mp4'') uid (abort_reply env),
                     Terminate p, Wait p]"
    and f: "failed_storage_call ev"
    and clean: "list_all (\<lambda>ev'. \<not> failed_storage_call ev' \<and> \<not> is_abort ev') pre"
    and ou: "list_all (on_upload (now_strftime env @ stream_name e @ ''.mp4'') uid) evs"
    and r: "r = (case abort_reply env of Inl y \<Rightarrow> Some y | Inr u \<Rightarrow> None)"
    by blast
  have "filter is_abort pre = []"
    using clean by (simp add: list_all_iff filter_empty_conv)
  moreover have "\<not> is_abort ev" using f by (cases ev) auto
  ultimately have one: "length (filter is_abort evs) = 1"
    using shape by simp
  show ?thesis
    using a shape f clean one ou r
    by (intro exI[of _ pre] exI[of _ ev] exI[of _ uid] exI[of _ p]) simp
qed

theorem storage_failure_aborts_once_witness:
  "segment chunk_threshold read_size failing_store cam_on None
     = (None,
        [CreateMultipartUpload ''b'' ''2024/01/01/20240101000000_cam.mp4'' (Inr ''u1''),
         Popen [''ffmpeg'', ''-i'', ''rtsp://h/s''] (Inr 7),
         StdoutRead 1048576 (Inr [1, 2, 3]), StdoutRead 1048576 (Inr []),
         UploadPart ''b'' ''2024/01/01/20240101000000_cam.mp4'' 1 ''u1'' [1, 2, 3]
           (Inl ClientError),
         PopenExit 7,
         AbortMultipartUpload ''b'' ''2024/01/01/20240101000000_cam.mp4'' ''u1'' (Inr ()),
         Terminate 7, Wait 7],
        cam_on, Some 7)
   \<and> list_ex failed_storage_call
        [CreateMultipartUpload ''b'' ''2024/01/01/20240101000000_cam.mp4'' (Inr ''u1''),
         Popen [''ffmpeg'', ''-i'', ''rtsp://h/s''] (Inr 7),
         StdoutRead 1048576 (Inr [1, 2, 3]), StdoutRead 1048576 (Inr []),
         UploadPart ''b'' ''2024/01/01/20240101000000_cam.mp4'' 1 ''u1'' [1, 2, 3]
           (Inl ClientError),
         PopenExit 7,
         AbortMultipartUpload ''b'' ''2024/01/01/20240101000000_cam.mp4'' ''u1'' (Inr ()),
         Terminate 7, Wait 7]
   \<and> (\<exists>pre ev uid p.
         create_reply failing_store = Inr uid \<and> popen_reply failing_store = Inr p
       \<and> [CreateMultipartUpload ''b'' ''2024/01/01/20240101000000_cam.mp4'' (Inr ''u1''),
          Popen [''ffmpeg'', ''-i'', ''rtsp://h/s''] (Inr 7),
          StdoutRead 1048576 (Inr [1, 2, 3]), StdoutRead 1048576 (Inr []),
          UploadPart ''b'' ''2024/01/01/20240101000000_cam.mp4'' 1 ''u1'' [1, 2, 3]
            (Inl ClientError),
          PopenExit 7,
          AbortMultipartUpload ''b'' ''2024/01/01/20240101000000_cam.mp4'' ''u1'' (Inr ()),
          Terminate 7, Wait 7]
         = pre @ [ev, PopenExit p,
                  AbortMultipartUpload ''b'' ''2024/01/01/20240101000000_cam.mp4'' uid (Inr ()),
                  Terminate p, Wait p]
       \<and> failed_storage_call ev
       \<and> list_all (\<lambda>ev'. \<not> failed_storage_call ev' \<and> \<not> is_abort ev') pre)"
proof -
  let ?evs = "[CreateMultipartUpload ''b'' ''2024/01/01/20240101000000_cam.mp4'' (Inr ''u1''),
         Popen [''ffmpeg'', ''-i'', ''rtsp://h/s''] (Inr 7),
         StdoutRead 1048576 (Inr [1, 2, 3]), StdoutRead 1048576 (Inr []),
         UploadPart ''b'' ''2024/01/01/20240101000000_cam.mp4'' 1 ''u1'' [1, 2, 3]
           (Inl ClientError),
         PopenExit 7,
         AbortMultipartUpload ''b'' ''2024/01/01/20240101000000_cam.mp4'' ''u1'' (Inr ()),
         Terminate 7, Wait 7]"
  have run: "segment chunk_threshold read_size failing_store cam_on None
     = (None, ?evs, cam_on, Some 7)"
    by (simp add: run_defs)
  have f: "\<exists>ev\<in>set ?evs. failed_storage_call ev"
    by simp
  have names: "bucket_name cam_on = ''b''"
    "now_strftime failing_store @ stream_name cam_on @ ''.mp4''
       = ''2024/01/01/20240101000000_cam.mp4''"
    "abort_reply failing_store = Inr ()"
    by (simp_all add: cam_on_def cam_def seg_env_def failing_store_def)
  from storage_failure_aborts_once[OF run f]
  have "\<exists>pre ev uid p.
         create_reply failing_store = Inr uid \<and> popen_reply failing_store = Inr p
       \<and> ?evs = pre @ [ev, PopenExit p,
                  AbortMultipartUpload ''b'' ''2024/01/01/20240101000000_cam.mp4'' uid (Inr ()),
                  Terminate p, Wait p]
       \<and> failed_storage_call ev
       \<and> list_all (\<lambda>ev'. \<not> failed_storage_call ev' \<and> \<not> is_abort ev') pre"
    unfolding names by blast
  moreover have "list_ex failed_storage_call ?evs" by simp
  ultimately show ?thesis using run by blast
qed

text \<open>
  \<^bold>\<open>C6.\<close> A stop during the read loop of a segment whose upload is open and whose child
  runs: \<open>pre\<close> are the reads answered before the stop, \<open>post\<close> is what the child would
  still have written. The stop turns the on flag off at once and publishes it. When the
  store acknowledges the parts and the completion, the outer loop then does exactly
  this and returns: no read after the stop, at most one \<open>upload_part\<close> with the
  remainder of the buffer, \<open>complete_multipart_upload\<close>, exit of the \<open>with\<close> block,
  \<open>terminate\<close>, \<open>wait\<close>. No abort is called, no call to the store fails, and the parts
  sent are exactly the data read before the stop.
\<close>

theorem stop_finalizes_segment:
  assumes on: "is_on e"
    and create: "create_reply env = Inr uid" and popen: "popen_reply env = Inr p"
    and script: "stdout_script env = pre @ ExternalStop # post"
    and data: "\<forall>s\<in>set pre. data_step s"
    and acks: "\<forall>n. \<exists>tag. upload_part_reply env n = Inr tag"
    and complete: "complete_reply env = Inr ()"
  shows "\<exists>before flush ps.
       upload_loop T R (Segment env # world) e proc
         = (Returned,
            CreateMultipartUpload (bucket_name e)
                (now_strftime env @ stream_name e @ ''.mp4'') (Inr uid)
            # Popen (split_blank (ffmpeg_command e)) (Inr p)
            # before @ [ScheduleUpdate False] @ flush
            @ [CompleteMultipartUpload (bucket_name e)
                 (now_strftime env @ stream_name e @ ''.mp4'') uid ps (Inr ()),
               PopenExit p, Terminate p, Wait p],
            e\<lparr>is_on := False\<rparr>)
     \<and> list_all (\<lambda>ev. is_read ev \<or> is_upload_part ev) before
     \<and> length (filter is_read before) = length pre
     \<and> list_all is_upload_part flush \<and> length flush \<le> 1
     \<and> list_all (\<lambda>ev. \<not> failed_storage_call ev) (before @ flush)
     \<and> concat (part_bodies (before @ flush)) = concat (map step_data pre)"
proof -
  from stopped_segment_run[OF on create popen script data acks complete, of T R proc]
  obtain before flush ps where
    seg: "segment T R env e proc
         = (None,
            CreateMultipartUpload (bucket_name e)
                (now_strftime env @ stream_name e @ ''.mp4'') (Inr uid)
            # Popen (split_blank (ffmpeg_command e)) (Inr p)
            # before @ [ScheduleUpdate False] @ flush
            @ [CompleteMultipartUpload (bucket_name e)
                 (now_strftime env @ stream_name e @ ''.mp4'') uid ps (Inr ()),
               PopenExit p, Terminate p, Wait p],
            e\<lparr>is_on := False\<rparr>, Some p)"
    and rest: "list_all (\<lambda>ev. is_read ev \<or> is_upload_part ev) before"
      "length (filter is_read before) = length pre"
      "list_all is_upload_part flush" "length flush \<le> 1"
      "list_all (\<lambda>ev. \<not> failed_storage_call ev) (before @ flush)"
      "concat (part_bodies (before @ flush)) = concat (map step_data pre)"
    by blast
  have "upload_loop T R world (e\<lparr>is_on := False\<rparr>) (Some p)
          = (Returned, [], e\<lparr>is_on := False\<rparr>)"
    by (simp add: upload_loop_off)
  with upload_loop_next[OF on seg, of world]
  have "upload_loop T R (Segment env # world) e proc
         = (Returned,
            CreateMultipartUpload (bucket_name e)
                (now_strftime env @ stream_name e @ ''.mp4'') (Inr uid)
            # Popen (split_blank (ffmpeg_command e)) (Inr p)
            # before @ [ScheduleUpdate False] @ flush
            @ [CompleteMultipartUpload (bucket_name e)
                 (now_strftime env @ stream_name e @ ''.mp4'') uid ps (Inr ()),
               PopenExit p, Terminate p, Wait p],
            e\<lparr>is_on := False\<rparr>)"
    by simp
  with rest show ?thesis by blast
qed


theorem stop_finalizes_segment_witness:
  "is_on cam_on
   \<and> create_reply stopped_segment = Inr ''u1''
   \<and> popen_reply stopped_segment = Inr 7
   \<and> stdout_script stopped_segment
       = [ReadReply (Inr [1, 2, 3])] @ ExternalStop # [ReadReply (Inr [4, 5])]
   \<and> list_all data_step [ReadReply (Inr [1, 2, 3])]
   \<and> (\<forall>n. \<exists>tag. upload_part_reply stopped_segment n = Inr tag)
   \<and> complete_reply stopped_segment = Inr ()
   \<and> (\<exists>before flush ps.
         upload_loop chunk_threshold read_size [Segment stopped_segment] cam_on None
           = (Returned,
              CreateMultipartUpload ''b'' ''2024/01/01/20240101000000_cam.mp4'' (Inr ''u1'')
              # Popen [''ffmpeg'', ''-i'', ''rtsp://h/s''] (Inr 7)
              # before @ [ScheduleUpdate False] @ flush
              @ [CompleteMultipartUpload ''b'' ''2024/01/01/20240101000000_cam.mp4'' ''u1'' ps
                   (Inr ()),
                 PopenExit 7, Terminate 7, Wait 7],
              cam)
       \<and> list_all (\<lambda>ev. is_read ev \<or> is_upload_part ev) before
       \<and> length (filter is_read before) = 1
       \<and> list_all is_upload_part flush \<and> length flush \<le> 1
       \<and> list_all (\<lambda>ev. \<not> failed_storage_call ev) (before @ flush)
       \<and> concat (part_bodies (before @ flush)) = [1, 2, 3])"
proof -
  have on: "is_on cam_on" by (simp add: cam_on_def)
  have c: "create_reply stopped_segment = Inr ''u1''"
    by (simp add: stopped_segment_def seg_env_def)
  have p: "popen_reply stopped_segment = Inr 7"
    by (simp add: stopped_segment_def seg_env_def)
  have s: "stdout_script stopped_segment
       = [ReadReply (Inr [1, 2, 3])] @ ExternalStop # [ReadReply (Inr [4, 5])]"
    by (simp add: stopped_segment_def seg_env_def)
  have d: "\<forall>s\<in>set [ReadReply (Inr [1, 2, 3])]. data_step s" by simp
  have a: "\<forall>n. \<exists>tag. upload_part_reply stopped_segment n = Inr tag"
    by (simp add: stopped_segment_def seg_env_def)
  have f: "complete_reply stopped_segment = Inr ()"
    by (simp add: stopped_segment_def seg_env_def)
  have names: "bucket_name cam_on = ''b''"
    "now_strftime stopped_segment @ stream_name cam_on @ ''.mp4''
       = ''2024/01/01/20240101000000_cam.mp4''"
    "split_blank (ffmpeg_command cam_on) = [''ffmpeg'', ''-i'', ''rtsp://h/s'']"
    "cam_on\<lparr>is_on := False\<rparr> = cam"
    "length [ReadReply (Inr [1, 2, 3])] = 1"
    "concat (map step_data [ReadReply (Inr [1, 2, 3])]) = [1, 2, 3]"
    by (simp_all add: cam_on_def cam_def seg_env_def stopped_segment_def)
  from stop_finalizes_segment[OF on c p s d a f, of chunk_threshold read_size "[]" None]
  have "\<exists>before flush ps.
         upload_loop chunk_threshold read_size [Segment stopped_segment] cam_on None
           = (Returned,
              CreateMultipartUpload ''b'' ''2024/01/01/20240101000000_cam.mp4'' (Inr ''u1'')
              # Popen [''ffmpeg'', ''-i'', ''rtsp://h/s''] (Inr 7)
              # before @ [ScheduleUpdate False] @ flush
              @ [CompleteMultipartUpload ''b'' ''2024/01/01/20240101000000_cam.mp4'' ''u1'' ps
                   (Inr ()),
                 PopenExit 7, Terminate 7, Wait 7],
              cam)
       \<and> list_all (\<lambda>ev. is_read ev \<or> is_upload_part ev) before
       \<and> length (filter is_read before) = 1
       \<and> list_all is_upload_part flush \<and> length flush \<le> 1
       \<and> list_all (\<lambda>ev. \<not> failed_storage_call ev) (before @ flush)
       \<and> concat (part_bodies (before @ flush)) = [1, 2, 3]"
    unfolding names by blast
  moreover have "list_all data_step [ReadReply (Inr [1, 2, 3])]" by simp
  ultimately show ?thesis using on c p s a f by blast
qed

theorem stop_then_abort_counterexample:
  "start_stream_to_s3 [Segment stopped_segment_refused] cam
     = (Returned,
        [ScheduleUpdate True,
         CreateMultipartUpload ''b'' ''2024/01/01/20240101000000_cam.mp4'' (Inr ''u1''),
         Popen [''ffmpeg'', ''-i'', ''rtsp://h/s''] (Inr 7),
         StdoutRead 1048576 (Inr [1, 2, 3]), ScheduleUpdate False,
         UploadPart ''b'' ''2024/01/01/20240101000000_cam.mp4'' 1 ''u1'' [1, 2, 3]
           (Inr ''tag''),
         CompleteMultipartUpload ''b'' ''2024/01/01/20240101000000_cam.mp4'' ''u1''
           [(1, ''tag'')] (Inl ClientError),
         PopenExit 7,
         AbortMultipartUpload ''b'' ''2024/01/01/20240101000000_cam.mp4'' ''u1'' (Inr ()),
         Terminate 7, Wait 7],
        cam, [])
   \<and> start_stream_to_s3 [Segment stopped_segment] cam
     = (Returned,
        [ScheduleUpdate True,
         CreateMultipartUpload ''b'' ''2024/01/01/20240101000000_cam.mp4'' (Inr ''u1''),
         Popen [''ffmpeg'', ''-i'', ''rtsp://h/s''] (Inr 7),
         StdoutRead 1048576 (Inr [1, 2, 3]), ScheduleUpdate False,
         UploadPart ''b'' ''2024/01/01/20240101000000_cam.mp4'' 1 ''u1'' [1, 2, 3]
           (Inr ''tag''),
         CompleteMultipartUpload ''b'' ''2024/01/01/20240101000000_cam.mp4'' ''u1''
           [(1, ''tag'')] (Inr ()),
         PopenExit 7, Terminate 7, Wait 7],
        cam, [])"
  by (simp add: run_defs)

text \<open>
  \<^bold>\<open>C7.\<close> However a segment ends - end of the child's output, an external stop, an
  exception of a read, a failed call to the store, an exception no handler catches -
  a child that \<open>Popen\<close> has launched in it is terminated and waited for: the last two
  events of the segment are \<open>process.terminate()\<close> and \<open>process.wait()\<close> on that very
  child, after the \<open>with\<close> block has closed its pipes and waited, and the segment
  launches no other child.
\<close>

theorem capture_process_reaped:
  assumes "segment T R env e proc = (r, evs, e', proc')"
    and "Popen argv (Inr p) \<in> set evs"
  shows "\<exists>uid mid. evs = CreateMultipartUpload (bucket_name e)
                (now_strftime env @ stream_name e @ ''.mp4'') (Inr uid)
              # Popen argv (Inr p) # mid @ [Terminate p, Wait p]
     \<and> list_all (\<lambda>ev. \<not> is_launch ev) mid \<and> PopenExit p \<in> set mid \<and> proc' = Some p"
  using assms by (rule segment_reaps)


theorem capture_process_reaped_witness:
  "segment chunk_threshold read_size
      (seg_env ''2024/01/01/20240101000000_'' ''u1'' 7
         [ReadReply (Inr [1, 2, 3]), ReadReply (Inl RuntimeError)]) cam_on None
     = (Some RuntimeError,
        [CreateMultipartUpload ''b'' ''2024/01/01/20240101000000_cam.mp4'' (Inr ''u1''),
         Popen [''ffmpeg'', ''-i'', ''rtsp://h/s''] (Inr 7),
         StdoutRead 1048576 (Inr [1, 2, 3]), StdoutRead 1048576 (Inl RuntimeError),
         PopenExit 7, Terminate 7, Wait 7],
        cam_on, Some 7)
   \<and> Popen [''ffmpeg'', ''-i'', ''rtsp://h/s''] (Inr 7)
       \<in> set [CreateMultipartUpload ''b'' ''2024/01/01/20240101000000_cam.mp4'' (Inr ''u1''),
         Popen [''ffmpeg'', ''-i'', ''rtsp://h/s''] (Inr 7),
         StdoutRead 1048576 (Inr [1, 2, 3]), StdoutRead 1048576 (Inl RuntimeError),
         PopenExit 7, Terminate 7, Wait 7]
   \<and> (\<exists>uid mid.
         [CreateMultipartUpload ''b'' ''2024/01/01/20240101000000_cam.mp4'' (Inr ''u1''),
          Popen [''ffmpeg'', ''-i'', ''rtsp://h/s''] (Inr 7),
          StdoutRead 1048576 (Inr [1, 2, 3]), StdoutRead 1048576 (Inl RuntimeError),
          PopenExit 7, Terminate 7, Wait 7]
         = CreateMultipartUpload ''b'' ''2024/01/01/20240101000000_cam.mp4'' (Inr uid)
           # Popen [''ffmpeg'', ''-i'', ''rtsp://h/s''] (Inr 7) # mid @ [Terminate 7, Wait 7]
         \<and> list_all (\<lambda>ev. \<not> is_launch ev) mid \<and> PopenExit 7 \<in> set mid)"
proof -
  let ?evs = "[CreateMultipartUpload ''b'' ''2024/01/01/20240101000000_cam.mp4'' (Inr ''u1''),
         Popen [''ffmpeg'', ''-i'', ''rtsp://h/s''] (Inr 7),
         StdoutRead 1048576 (Inr [1, 2, 3]), StdoutRead 1048576 (Inl RuntimeError),
         PopenExit 7, Terminate 7, Wait 7]"
  have run: "segment chunk_threshold read_size
      (seg_env ''2024/01/01/20240101000000_'' ''u1'' 7
         [ReadReply (Inr [1, 2, 3]), ReadReply (Inl RuntimeError)]) cam_on None
     = (Some RuntimeError, ?evs, cam_on, Some 7)"
    by (simp add: run_defs)
  have l: "Popen [''ffmpeg'', ''-i'', ''rtsp://h/s''] (Inr 7) \<in> set ?evs"
    by simp
  have names: "bucket_name cam_on = ''b''"
    "now_strftime (seg_env ''2024/01/01/20240101000000_'' ''u1'' 7
         [ReadReply (Inr [1, 2, 3]), ReadReply (Inl RuntimeError)]) @ stream_name cam_on
       @ ''.mp4'' = ''2024/01/01/20240101000000_cam.mp4''"
    by (simp_all add: cam_on_def cam_def seg_env_def)
  from capture_process_reaped[OF run l]
  have "\<exists>uid mid. ?evs
         = CreateMultipartUpload ''b'' ''2024/01/01/20240101000000_cam.mp4'' (Inr uid)
           # Popen [''ffmpeg'', ''-i'', ''rtsp://h/s''] (Inr 7) # mid @ [Terminate 7, Wait 7]
         \<and> list_all (\<lambda>ev. \<not> is_launch ev) mid \<and> PopenExit 7 \<in> set mid"
    unfolding names by blast
  with run l show ?thesis by blast
qed




text \<open>
  \<^bold>\<open>C9.\<close> The buffer of the read loop, with the constants of the source (a threshold of
  5 MiB, reads of at most 1 MiB). Run the loop on any first part \<open>take k steps\<close> of what
  the world does, every read returning at most \<open>read_size\<close> bytes as \<open>read(n)\<close> promises.
  Then every body handed to \<open>upload_part\<close> inside the loop is the buffer at the time of
  the flush and holds more than the threshold and at most the threshold plus one read;
  the buffer the loop is left with holds at most the threshold plus one read, and at
  most the threshold when the loop did not end by an exception; and the buffer is
  emptied by each acknowledged flush: the acknowledged bodies followed by the buffer
  are exactly the data read so far, no byte kept twice.
\<close>

theorem buffer_bounded_and_reset:
  assumes sizes: "\<forall>s\<in>set steps. step_size s \<le> read_size"
    and run: "read_loop chunk_threshold read_size env key uid (take k steps) e
                \<lparr>buffer = [], parts = [], part_number = 1\<rparr> = (r, evs, e', ls')"
  shows "(\<forall>body\<in>set (part_bodies evs).
            chunk_threshold < length body \<and> length body \<le> chunk_threshold + read_size)
     \<and> length (buffer ls') \<le> chunk_threshold + read_size
     \<and> (r = None \<longrightarrow> length (buffer ls') \<le> chunk_threshold)
     \<and> concat (acked_bodies evs) @ buffer ls' = concat (read_chunks evs)"
proof -
  have s: "\<forall>s\<in>set (take k steps). step_size s \<le> read_size"
    using sizes by (rule set_take_bound)
  from read_loop_bounds[OF run s] read_loop_conserve[OF run]
  show ?thesis by simp
qed

theorem buffer_bounded_and_reset_witness:
  "list_all (\<lambda>s. step_size s \<le> read_size)
      [ReadReply (Inr mib), ReadReply (Inr mib), ReadReply (Inr mib),
       ReadReply (Inr mib), ReadReply (Inr mib), ReadReply (Inr mib),
       ReadReply (Inr [1, 2, 3])]
   \<and> read_loop chunk_threshold read_size (seg_env ''s'' ''u'' 7 []) ''k'' ''u''
        (take 7 [ReadReply (Inr mib), ReadReply (Inr mib), ReadReply (Inr mib),
                 ReadReply (Inr mib), ReadReply (Inr mib), ReadReply (Inr mib),
                 ReadReply (Inr [1, 2, 3])])
        cam_on \<lparr>buffer = [], parts = [], part_number = 1\<rparr>
      = (None,
         [StdoutRead 1048576 (Inr mib), StdoutRead 1048576 (Inr mib),
          StdoutRead 1048576 (Inr mib), StdoutRead 1048576 (Inr mib),
          StdoutRead 1048576 (Inr mib), StdoutRead 1048576 (Inr mib),
          UploadPart ''b'' ''k'' 1 ''u'' (mib @ mib @ mib @ mib @ mib @ mib) (Inr ''tag''),
          StdoutRead 1048576 (Inr [1, 2, 3]), StdoutRead 1048576 (Inr [])],
         cam_on, \<lparr>buffer = [1, 2, 3], parts = [(1, ''tag'')], part_number = 2\<rparr>)
   \<and> chunk_threshold < length (mib @ mib @ mib @ mib @ mib @ mib)
   \<and> length (mib @ mib @ mib @ mib @ mib @ mib) \<le> chunk_threshold + read_size
   \<and> length [1, 2, 3 :: 8 word] \<le> chunk_threshold
   \<and> concat [mib @ mib @ mib @ mib @ mib @ mib] @ [1, 2, 3]
       = concat [mib, mib, mib, mib, mib, mib, [1, 2, 3], []]"
proof -
  have h: "\<forall>s\<in>set [ReadReply (Inr mib), ReadReply (Inr mib), ReadReply (Inr mib),
              ReadReply (Inr mib), ReadReply (Inr mib), ReadReply (Inr mib),
              ReadReply (Inr [1, 2, 3])]. step_size s \<le> read_size"
    by (simp add: length_mib read_size_def)
  have run: "read_loop chunk_threshold read_size (seg_env ''s'' ''u'' 7 []) ''k'' ''u''
        (take 7 [ReadReply (Inr mib), ReadReply (Inr mib), ReadReply (Inr mib),
                 ReadReply (Inr mib), ReadReply (Inr mib), ReadReply (Inr mib),
                 ReadReply (Inr [1, 2, 3])])
        cam_on \<lparr>buffer = [], parts = [], part_number = 1\<rparr>
      = (None,
         [StdoutRead 1048576 (Inr mib), StdoutRead 1048576 (Inr mib),
          StdoutRead 1048576 (Inr mib), StdoutRead 1048576 (Inr mib),
          StdoutRead 1048576 (Inr mib), StdoutRead 1048576 (Inr mib),
          UploadPart ''b'' ''k'' 1 ''u'' (mib @ mib @ mib @ mib @ mib @ mib) (Inr ''tag''),
          StdoutRead 1048576 (Inr [1, 2, 3]), StdoutRead 1048576 (Inr [])],
         cam_on, \<lparr>buffer = [1, 2, 3], parts = [(1, ''tag'')], part_number = 2\<rparr>)"
    by (simp add: run_defs)
  from buffer_bounded_and_reset[OF h run] h run show ?thesis
    by (simp add: list_all_iff)
qed

text \<open>
  \<^bold>\<open>C10.\<close> Validation of the stream descriptors, once the JSON has been read and the
  bucket has answered. \<open>validate_input\<close> returns, and \<open>async_step_user\<close> creates the
  configuration entry, exactly when every descriptor has a \<open>url\<close> that starts with
  \<open>rtsp://\<close> or \<open>rtmp://\<close>. When every descriptor has a \<open>url\<close> and one of them starts
  otherwise, \<open>validate_input\<close> raises \<open>InvalidStreamURL\<close>; \<open>async_step_user\<close> then
  creates no entry (so no entity is ever set up from it) and shows the form again with
  the error \<open>invalid_stream_url\<close>, calling the validation once and not again.
\<close>

theorem stream_url_validation:
  assumes "streams_json data = Some streams" and "head_bucket data = BucketOk"
  shows "(validate_input DOMAIN data = Inr DOMAIN) = list_all stream_accepted streams
     \<and> (async_step_user DOMAIN (Some data) = CreateEntry DOMAIN data)
          = list_all stream_accepted streams
     \<and> (list_all has_url streams \<and> \<not> list_all stream_accepted streams \<longrightarrow>
           validate_input DOMAIN data = Inl InvalidStreamURL
         \<and> async_step_user DOMAIN (Some data) = ShowForm [(''base'', ''invalid_stream_url'')])
     \<and> (\<forall>url. accepted_url url
            = (\<exists>rest. url = ''rtsp://'' @ rest \<or> url = ''rtmp://'' @ rest))"
proof -
  have v: "validate_input DOMAIN data =
      (case validate_streams streams of Inl x \<Rightarrow> Inl x | Inr u \<Rightarrow> Inr DOMAIN)"
    using assms by (simp add: validate_input_def validate_bucket_sync_def)
  have a: "(validate_input DOMAIN data = Inr DOMAIN) = list_all stream_accepted streams"
    unfolding v validate_streams_ok[symmetric]
    by (cases "validate_streams streams") auto
  have b: "(async_step_user DOMAIN (Some data) = CreateEntry DOMAIN data)
          = list_all stream_accepted streams"
  proof (cases "validate_input DOMAIN data")
    case (Inl x)
    with a have "\<not> list_all stream_accepted streams" by auto
    moreover from Inl have "async_step_user DOMAIN (Some data) \<noteq> CreateEntry DOMAIN data"
      by (cases x) (simp_all add: async_step_user_def)
    ultimately show ?thesis by simp
  next
    case (Inr title)
    with v have "title = DOMAIN" by (cases "validate_streams streams") auto
    with Inr a show ?thesis by (simp add: async_step_user_def)
  qed
  have c: "list_all has_url streams \<and> \<not> list_all stream_accepted streams \<longrightarrow>
           validate_input DOMAIN data = Inl InvalidStreamURL
         \<and> async_step_user DOMAIN (Some data) = ShowForm [(''base'', ''invalid_stream_url'')]"
    using validate_streams_rejects[of streams] v by (auto simp: async_step_user_def)
  have d: "\<forall>url. accepted_url url
            = (\<exists>rest. url = ''rtsp://'' @ rest \<or> url = ''rtmp://'' @ rest)"
    unfolding accepted_url_def startswith_iff by blast
  from a b c d show ?thesis by blast
qed

theorem stream_url_validation_witness:
  "streams_json \<lparr>streams_json = Some [[(''name'', ''cam''), (''url'', ''rtsp://h/s'')],
                                       [(''name'', ''door''), (''url'', ''http://h/d'')]],
                 head_bucket = BucketOk\<rparr>
     = Some [[(''name'', ''cam''), (''url'', ''rtsp://h/s'')],
             [(''name'', ''door''), (''url'', ''http://h/d'')]]
   \<and> head_bucket \<lparr>streams_json = Some [[(''name'', ''cam''), (''url'', ''rtsp://h/s'')],
                                       [(''name'', ''door''), (''url'', ''http://h/d'')]],
                 head_bucket = BucketOk\<rparr> = BucketOk
   \<and> list_all has_url [[(''name'', ''cam''), (''url'', ''rtsp://h/s'')],
                       [(''name'', ''door''), (''url'', ''http://h/d'')]]
   \<and> \<not> list_all stream_accepted [[(''name'', ''cam''), (''url'', ''rtsp://h/s'')],
                                  [(''name'', ''door''), (''url'', ''http://h/d'')]]
   \<and> validate_input ''stream_recorder_to_s3''
        \<lparr>streams_json = Some [[(''name'', ''cam''), (''url'', ''rtsp://h/s'')],
                              [(''name'', ''door''), (''url'', ''http://h/d'')]],
         head_bucket = BucketOk\<rparr> = Inl InvalidStreamURL
   \<and> async_step_user ''stream_recorder_to_s3''
        (Some \<lparr>streams_json = Some [[(''name'', ''cam''), (''url'', ''rtsp://h/s'')],
                                    [(''name'', ''door''), (''url'', ''http://h/d'')]],
               head_bucket = BucketOk\<rparr>)
       = ShowForm [(''base'', ''invalid_stream_url'')]"
proof -
  let ?streams = "[[(''name'', ''cam''), (''url'', ''rtsp://h/s'')],
                   [(''name'', ''door''), (''url'', ''http://h/d'')]]"
  let ?data = "\<lparr>streams_json = Some ?streams, head_bucket = BucketOk\<rparr>"
  have h1: "streams_json ?data = Some ?streams" by simp
  have h2: "head_bucket ?data = BucketOk" by simp
  have u: "list_all has_url ?streams" by (simp add: has_url_def)
  have n: "\<not> list_all stream_accepted ?streams"
    by (simp add: stream_accepted_def accepted_url_def startswith_def)
  from stream_url_validation[OF h1 h2, of "''stream_recorder_to_s3''"] h1 h2 u n
  show ?thesis by blast
qed

end
